theory Spec2Isabelle
  imports Complex_Main "HOL-Library.Monad_Syntax"
begin

section \<open>The values of the TypeScript type \<open>number\<close>\<close>

text \<open>
  Every quantity of the program is a TypeScript \<open>number\<close>, an IEEE 754 binary64
  value. The model keeps the three values that are not real numbers, \<open>NaN\<close>,
  \<open>Infinity\<close> and \<open>-Infinity\<close>, because the program's guards (\<open>Number.isFinite\<close>) and
  several statements about it speak of them; a finite value is the real number it
  denotes, with a single zero. The operators of this first part are the exact
  operations, extended to the four kinds of value as ECMAScript's Number operations
  extend them: \<open>+\<close>, unary and binary \<open>-\<close>, \<open>*\<close>, \<open>/\<close>, \<open>%\<close> (written \<open>mod\<close>),
  \<open>Math.abs\<close> (written \<open>\<bar>x\<bar>\<close>), and the comparisons \<open><\<close>, \<open><=\<close>, which are false
  as soon as an operand is \<open>NaN\<close>. The remainder, the absolute value and the
  comparisons of two doubles are exact in the program too. The sum, the difference, the
  product and the quotient are not: the program rounds each of them to the nearest
  double, which the second part adds.
\<close>

datatype number = Num real | Infinity | NegInfinity | NaN

fun isFinite :: "number \<Rightarrow> bool" where
  "isFinite (Num r) = True"
| "isFinite Infinity = False"
| "isFinite NegInfinity = False"
| "isFinite NaN = False"

text \<open>The quotient of \<open>a\<close> by \<open>b\<close> rounded towards zero, as \<open>%\<close> uses it.\<close>

definition trunc_quot :: "real \<Rightarrow> real \<Rightarrow> int" where
  "trunc_quot a b = (if 0 \<le> a / b then \<lfloor>a / b\<rfloor> else \<lceil>a / b\<rceil>)"

instantiation number :: "{plus, minus, uminus, times, inverse, modulo, abs, ord}"
begin

fun plus_number :: "number \<Rightarrow> number \<Rightarrow> number" where
  "plus_number NaN y = NaN"
| "plus_number x NaN = NaN"
| "plus_number (Num a) (Num b) = Num (a + b)"
| "plus_number Infinity NegInfinity = NaN"
| "plus_number NegInfinity Infinity = NaN"
| "plus_number Infinity y = Infinity"
| "plus_number x Infinity = Infinity"
| "plus_number NegInfinity y = NegInfinity"
| "plus_number x NegInfinity = NegInfinity"

fun uminus_number :: "number \<Rightarrow> number" where
  "uminus_number (Num a) = Num (- a)"
| "uminus_number Infinity = NegInfinity"
| "uminus_number NegInfinity = Infinity"
| "uminus_number NaN = NaN"

definition minus_number :: "number \<Rightarrow> number \<Rightarrow> number" where
  "minus_number x y = x + (- y)"

fun times_number :: "number \<Rightarrow> number \<Rightarrow> number" where
  "times_number NaN y = NaN"
| "times_number x NaN = NaN"
| "times_number (Num a) (Num b) = Num (a * b)"
| "times_number Infinity (Num b) = (if b = 0 then NaN else if 0 < b then Infinity else NegInfinity)"
| "times_number NegInfinity (Num b) = (if b = 0 then NaN else if 0 < b then NegInfinity else Infinity)"
| "times_number (Num a) Infinity = (if a = 0 then NaN else if 0 < a then Infinity else NegInfinity)"
| "times_number (Num a) NegInfinity = (if a = 0 then NaN else if 0 < a then NegInfinity else Infinity)"
| "times_number Infinity Infinity = Infinity"
| "times_number Infinity NegInfinity = NegInfinity"
| "times_number NegInfinity Infinity = NegInfinity"
| "times_number NegInfinity NegInfinity = Infinity"

fun divide_number :: "number \<Rightarrow> number \<Rightarrow> number" where
  "divide_number NaN y = NaN"
| "divide_number x NaN = NaN"
| "divide_number (Num a) (Num b) =
     (if b = 0 then (if a = 0 then NaN else if 0 < a then Infinity else NegInfinity)
      else Num (a / b))"
| "divide_number (Num a) y = Num 0"
| "divide_number Infinity (Num b) = (if 0 \<le> b then Infinity else NegInfinity)"
| "divide_number NegInfinity (Num b) = (if 0 \<le> b then NegInfinity else Infinity)"
| "divide_number x y = NaN"

definition inverse_number :: "number \<Rightarrow> number" where
  "inverse_number x = Num 1 div x"

fun modulo_number :: "number \<Rightarrow> number \<Rightarrow> number" where
  "modulo_number NaN y = NaN"
| "modulo_number x NaN = NaN"
| "modulo_number Infinity y = NaN"
| "modulo_number NegInfinity y = NaN"
| "modulo_number (Num a) (Num b) =
     (if b = 0 then NaN else Num (a - b * of_int (trunc_quot a b)))"
| "modulo_number (Num a) y = Num a"

fun abs_number :: "number \<Rightarrow> number" where
  "abs_number (Num a) = Num \<bar>a\<bar>"
| "abs_number Infinity = Infinity"
| "abs_number NegInfinity = Infinity"
| "abs_number NaN = NaN"

fun less_number :: "number \<Rightarrow> number \<Rightarrow> bool" where
  "less_number (Num a) (Num b) = (a < b)"
| "less_number (Num a) Infinity = True"
| "less_number NegInfinity (Num b) = True"
| "less_number NegInfinity Infinity = True"
| "less_number x y = False"

fun less_eq_number :: "number \<Rightarrow> number \<Rightarrow> bool" where
  "less_eq_number (Num a) (Num b) = (a \<le> b)"
| "less_eq_number (Num a) Infinity = True"
| "less_eq_number NegInfinity (Num b) = True"
| "less_eq_number NegInfinity Infinity = True"
| "less_eq_number Infinity Infinity = True"
| "less_eq_number NegInfinity NegInfinity = True"
| "less_eq_number x y = False"

instance ..

end


subsection \<open>Rounding to the nearest double\<close>

text \<open>
  A double has 53 significant bits and a binary exponent from \<open>-1022\<close> to \<open>1023\<close>.
  \<open>binade x\<close> is the exponent of \<open>x\<close>, the integer \<open>b\<close> with
  \<open>2 ^ b \<le> \<bar>x\<bar> < 2 ^ (b + 1)\<close>; \<open>ulp_exponent x\<close> is the exponent of the gap between
  the doubles around \<open>x\<close>, which stops shrinking at \<open>2 ^ - 1074\<close> (the subnormal
  numbers). \<open>fl x\<close> is the multiple of that gap nearest to \<open>x\<close>, a tie going to the
  even multiple: the rounding of IEEE 754 in its default mode, before overflow.
\<close>

definition binade :: "real \<Rightarrow> int" where
  "binade x = (if x = 0 then 0 else \<lfloor>log 2 \<bar>x\<bar>\<rfloor>)"

definition ulp_exponent :: "real \<Rightarrow> int" where
  "ulp_exponent x = max (binade x) (- 1022) - 52"

definition round_even :: "real \<Rightarrow> int" where
  "round_even y =
     (let f = \<lfloor>y\<rfloor>
      in if y - of_int f < 1 / 2 then f
         else if 1 / 2 < y - of_int f then f + 1
         else if even f then f else f + 1)"

definition fl :: "real \<Rightarrow> real" where
  "fl x =
     (if x = 0 then 0
      else of_int (round_even (x / 2 powi ulp_exponent x)) * 2 powi ulp_exponent x)"

text \<open>
  A rounded magnitude of \<open>2 ^ 1024\<close> or more is an overflow: the result is the infinity
  of its sign.
\<close>

definition overflow :: "real \<Rightarrow> number" where
  "overflow y =
     (if 2 ^ 1024 \<le> \<bar>y\<bar> then (if 0 < y then Infinity else NegInfinity) else Num y)"

fun rnd :: "number \<Rightarrow> number" where
  "rnd (Num x) = overflow (fl x)"
| "rnd Infinity = Infinity"
| "rnd NegInfinity = NegInfinity"
| "rnd NaN = NaN"

text \<open>
  The four arithmetic operators of the program, \<open>+\<close>, \<open>-\<close>, \<open>*\<close> and \<open>/\<close> on doubles:
  the exact result, rounded. A numeric literal that is not itself a double, such as
  \<open>0.4\<close> or \<open>273.15\<close>, denotes the nearest one.
\<close>

definition fadd :: "number \<Rightarrow> number \<Rightarrow> number" where
  "fadd x y = rnd (x + y)"

definition fsub :: "number \<Rightarrow> number \<Rightarrow> number" where
  "fsub x y = rnd (x - y)"

definition fmul :: "number \<Rightarrow> number \<Rightarrow> number" where
  "fmul x y = rnd (x * y)"

definition fdiv :: "number \<Rightarrow> number \<Rightarrow> number" where
  "fdiv x y = rnd (x / y)"

definition literal :: "real \<Rightarrow> number" where
  "literal x = rnd (Num x)"

subsection \<open>The functions of \<open>Math\<close>, arrays and defaults\<close>

text \<open>\<open>Math.max\<close> and \<open>Math.min\<close> of two arguments: \<open>NaN\<close> as soon as one is.\<close>

fun Math_max :: "number \<Rightarrow> number \<Rightarrow> number" where
  "Math_max NaN y = NaN"
| "Math_max x NaN = NaN"
| "Math_max x y = (if x < y then y else x)"

fun Math_min :: "number \<Rightarrow> number \<Rightarrow> number" where
  "Math_min NaN y = NaN"
| "Math_min x NaN = NaN"
| "Math_min x y = (if y < x then y else x)"

text \<open>
  \<open>Math.cos\<close> and \<open>Math.sin\<close>. ECMAScript leaves their values to the implementation
  (``implementation-approximated''), apart from \<open>NaN\<close> at an argument that is not
  finite. They are taken here as the cosine and the sine rounded to the nearest double.
  The statements below use of them only that they are finite at a finite argument.
\<close>

fun Math_cos :: "number \<Rightarrow> number" where
  "Math_cos (Num a) = Num (fl (cos a))"
| "Math_cos x = NaN"

fun Math_sin :: "number \<Rightarrow> number" where
  "Math_sin (Num a) = Num (fl (sin a))"
| "Math_sin x = NaN"

text \<open>
  \<open>Math.round\<close>: the nearest integer, a tie going up; it is exact. \<open>Math.PI\<close> is the
  double nearest to \<open>\<pi>\<close>, \<open>884279719003555 / 2 ^ 48\<close>.
\<close>

fun Math_round :: "number \<Rightarrow> number" where
  "Math_round (Num a) = Num (of_int \<lfloor>a + 1 / 2\<rfloor>)"
| "Math_round x = x"

definition Math_PI :: number where
  "Math_PI = Num (884279719003555 / 281474976710656)"

text \<open>
  Reading an array at a \<open>number\<close>: the element when the number is an integer within
  the array, \<open>undefined\<close> (here \<open>None\<close>) otherwise; nothing is thrown.
\<close>

fun at_index :: "'a list \<Rightarrow> number \<Rightarrow> 'a option" where
  "at_index xs (Num r) =
     (if of_int \<lfloor>r\<rfloor> = r \<and> 0 \<le> r \<and> r < real (length xs) then Some (xs ! nat \<lfloor>r\<rfloor>) else None)"
| "at_index xs x = None"

text \<open>A destructured field or parameter with a default: the default when it is absent.\<close>

fun or_default :: "'a option \<Rightarrow> 'a \<Rightarrow> 'a" where
  "or_default None d = d"
| "or_default (Some v) d = v"

section \<open>Wind geometry (\<open>BestWindDirection.tsx\<close>, \<open>useWind.ts\<close>)\<close>

text \<open>
  The two source files are \<open>src/unnamed/part_003\<close> (its header comment names it
  \<open>BestWindDirection.tsx\<close>) and \<open>src/unnamed/part_004\<close> (\<open>src/hooks/useWind.ts\<close>).
\<close>

subsection \<open>Angles and compass labels\<close>

definition clampDeg :: "number \<Rightarrow> number" where
  "clampDeg deg = (fadd (deg mod Num 360) (Num 360)) mod Num 360"

definition toRad :: "number \<Rightarrow> number" where
  "toRad deg = fdiv (fmul deg Math_PI) (Num 180)"

text \<open>The source's comment: smallest signed angular difference \<open>a - b\<close> in \<open>[-180, 180]\<close>.\<close>

definition angleDiff :: "number \<Rightarrow> number \<Rightarrow> number" where
  "angleDiff a b =
     (let d = fsub (clampDeg a) (clampDeg b);
          wrapped = fsub ((fadd d (Num 540)) mod Num 360) (Num 180)
      in wrapped)"

definition COMPASS_16 :: "string list" where
  "COMPASS_16 =
     [''N'', ''NNE'', ''NE'', ''ENE'', ''E'', ''ESE'', ''SE'', ''SSE'',
      ''S'', ''SSW'', ''SW'', ''WSW'', ''W'', ''WNW'', ''NW'', ''NNW'']"

definition bearingToCompass :: "number \<Rightarrow> string option" where
  "bearingToCompass deg =
     (let i = Math_round (fdiv (clampDeg deg) (Num 22.5)) mod Num 16
      in at_index COMPASS_16 i)"

text \<open>\<open>toCompass\<close> of \<open>useWind.ts\<close>: the same table, the degrees reduced by \<open>%\<close> alone.\<close>

definition toCompass :: "number \<Rightarrow> string option" where
  "toCompass deg =
     (let dirs = [''N'', ''NNE'', ''NE'', ''ENE'', ''E'', ''ESE'', ''SE'', ''SSE'',
                  ''S'', ''SSW'', ''SW'', ''WSW'', ''W'', ''WNW'', ''NW'', ''NNW''];
          i = Math_round (fdiv (deg mod Num 360) (Num 22.5)) mod Num 16
      in at_index dirs i)"

subsection \<open>\<open>windComponents\<close>\<close>

record WindComponents =
  headwind :: number
  headOrTail :: string
  crosswind :: number
  side :: string

text \<open>
  The locals \<open>alpha\<close> and \<open>headwindSigned\<close> of \<open>windComponents\<close>, named so that
  statements can speak of the signed value, which the function returns only through
  its magnitude and its sign.
\<close>

definition windComponents_alpha :: "number \<Rightarrow> number \<Rightarrow> number" where
  "windComponents_alpha windFromDeg headingDeg =
     fmul ((fadd (fsub windFromDeg headingDeg) (Num 360)) mod Num 360)
       (fdiv Math_PI (Num 180))"

definition windComponents_headwindSigned :: "number \<Rightarrow> number \<Rightarrow> number \<Rightarrow> number" where
  "windComponents_headwindSigned windFromDeg headingDeg speed =
     fmul speed (Math_cos (windComponents_alpha windFromDeg headingDeg))"

definition windComponents :: "number \<Rightarrow> number \<Rightarrow> number \<Rightarrow> WindComponents" where
  "windComponents windFromDeg headingDeg speed =
     (let alpha = windComponents_alpha windFromDeg headingDeg;
          headwindSigned = windComponents_headwindSigned windFromDeg headingDeg speed;
          crossAbs = \<bar>fmul speed (Math_sin alpha)\<bar>;
          beta = fsub ((fadd (fsub windFromDeg headingDeg) (Num 540)) mod Num 360) (Num 180)
      in \<lparr>headwind = \<bar>headwindSigned\<bar>,
          headOrTail = (if Num 0 \<le> headwindSigned then ''headwind'' else ''tailwind''),
          crosswind = crossAbs,
          side = (if beta < Num 0 then ''left'' else ''right'')\<rparr>)"

subsection \<open>Scoring one heading\<close>

record HeadingScore =
  score :: number
  tailComponent :: number
  crossComponent :: number
  windTowardDeg :: number

text \<open>The fourth parameter is optional in the source, with the default \<open>0.4\<close>.\<close>

definition scoreHeading :: "number \<Rightarrow> number \<Rightarrow> number \<Rightarrow> number option \<Rightarrow> HeadingScore" where
  "scoreHeading windFromDeg windSpeed headingDeg crosswindPenalty =
     (let penalty = or_default crosswindPenalty (literal 0.4);
          toward = clampDeg (fadd windFromDeg (Num 180));
          delta = angleDiff headingDeg toward;
          tail = fmul windSpeed (Math_cos (toRad delta));
          cross = \<bar>fmul windSpeed (Math_sin (toRad delta))\<bar>
      in \<lparr>score = fsub tail (fmul penalty cross),
          tailComponent = tail,
          crossComponent = cross,
          windTowardDeg = toward\<rparr>)"

subsection \<open>The search over the lattice of headings\<close>

fun inIntervals :: "number \<Rightarrow> (number \<times> number) list option \<Rightarrow> bool" where
  "inIntervals x None = True"
| "inIntervals x (Some []) = True"
| "inIntervals x (Some ranges) =
     (let d = clampDeg x
      in list_ex (\<lambda>(a, b).
           let A = clampDeg a; B = clampDeg b
           in if A \<le> B then A \<le> d \<and> d \<le> B
              else A \<le> d \<or> d \<le> B) ranges)"

record Recommendation = HeadingScore +
  headingDeg :: number
  headingLabel :: "string option"

text \<open>
  The first loop of \<open>recommendHeadings\<close>: \<open>for (let h = 0; h < 360; h += resolutionDeg)\<close>.
  Its body pushes \<open>candidate\<close>, the scored heading \<open>h\<close> with its label. Nothing bounds
  the number of steps, so the loop is a partial function: \<open>None\<close> is a loop that never
  ends. A heading outside the allowed intervals is skipped (\<open>continue\<close>), and the step
  is taken all the same.
\<close>

definition candidate :: "number \<Rightarrow> number \<Rightarrow> number \<Rightarrow> number \<Rightarrow> Recommendation" where
  "candidate windFromDeg windSpeed crosswindPenalty h =
     (let s = scoreHeading windFromDeg windSpeed h (Some crosswindPenalty)
      in \<lparr>score = score s,
          tailComponent = tailComponent s,
          crossComponent = crossComponent s,
          windTowardDeg = windTowardDeg s,
          headingDeg = h,
          headingLabel = bearingToCompass h\<rparr>)"

partial_function (option) lattice ::
  "number \<Rightarrow> number \<Rightarrow> number \<Rightarrow> number \<Rightarrow> (number \<times> number) list option \<Rightarrow>
   number \<Rightarrow> Recommendation list \<Rightarrow> Recommendation list option" where
  "lattice windFromDeg windSpeed resolutionDeg crosswindPenalty allowedHeadings h candidates =
     (if h < Num 360 then
        (if \<not> inIntervals h allowedHeadings then
           lattice windFromDeg windSpeed resolutionDeg crosswindPenalty allowedHeadings
             (fadd h resolutionDeg) candidates
         else
           lattice windFromDeg windSpeed resolutionDeg crosswindPenalty allowedHeadings
             (fadd h resolutionDeg)
             (candidates @ [candidate windFromDeg windSpeed crosswindPenalty h]))
      else Some candidates)"

declare lattice.simps [code]

text \<open>
  \<open>candidates.sort((a, b) => b.score - a.score)\<close>. \<open>Array.prototype.sort\<close> is stable and
  reads a comparator result of \<open>NaN\<close> as \<open>0\<close>; an element moves behind another only
  when the comparator is positive. For a comparator that orders the elements
  consistently the result is that of stable insertion, as below. (When only some of the
  scores are \<open>NaN\<close> the comparator is not consistent and ECMAScript leaves the order to
  the implementation; no statement below depends on the order in that case.)
\<close>

fun insort_by :: "('a \<Rightarrow> 'a \<Rightarrow> number) \<Rightarrow> 'a \<Rightarrow> 'a list \<Rightarrow> 'a list" where
  "insort_by cmp x [] = [x]"
| "insort_by cmp x (y # ys) =
     (if Num 0 < cmp x y then y # insort_by cmp x ys else x # y # ys)"

definition Array_sort :: "('a \<Rightarrow> 'a \<Rightarrow> number) \<Rightarrow> 'a list \<Rightarrow> 'a list" where
  "Array_sort cmp xs = foldr (insort_by cmp) xs []"

text \<open>
  The second loop: take the candidates in order, stop at \<open>topK\<close> picks, skip a candidate
  that is too close to one already picked.
\<close>

fun pick :: "number \<Rightarrow> number \<Rightarrow> Recommendation list \<Rightarrow> Recommendation list \<Rightarrow> Recommendation list" where
  "pick topK minSeparationDeg [] picked = picked"
| "pick topK minSeparationDeg (c # cs) picked =
     (if topK \<le> Num (real (length picked)) then picked
      else
        let tooClose =
          list_ex (\<lambda>p. \<bar>angleDiff (headingDeg p) (headingDeg c)\<bar> < minSeparationDeg) picked
        in if \<not> tooClose then pick topK minSeparationDeg cs (picked @ [c])
           else pick topK minSeparationDeg cs picked)"

record RecommendOptions =
  resolutionDeg :: "number option"
  crosswindPenalty :: "number option"
  allowedHeadings :: "(number \<times> number) list option"
  minSeparationDeg :: "number option"
  topK :: "number option"

text \<open>The empty options object \<open>{}\<close>, the default of the parameter \<open>opts\<close>.\<close>

definition no_options :: RecommendOptions where
  "no_options =
     \<lparr>resolutionDeg = None, crosswindPenalty = None, allowedHeadings = None,
      minSeparationDeg = None, topK = None\<rparr>"

definition recommendHeadings ::
  "number \<Rightarrow> number \<Rightarrow> RecommendOptions option \<Rightarrow> Recommendation list option" where
  "recommendHeadings windFromDeg windSpeed opts =
     (let options = or_default opts no_options;
          resolution = or_default (resolutionDeg options) (Num 5);
          penalty = or_default (crosswindPenalty options) (literal 0.4);
          allowed = allowedHeadings options;
          minSeparation = or_default (minSeparationDeg options) (Num 15);
          k = or_default (topK options) (Num 3)
      in do {
        candidates \<leftarrow> lattice windFromDeg windSpeed resolution penalty allowed (Num 0) [];
        let sorted = Array_sort (\<lambda>a b. fsub (score b) (score a)) candidates;
        Some (pick k minSeparation sorted [])
      })"

subsection \<open>The component \<open>BestWindDirection\<close>\<close>



section \<open>Baseline pressure (\<open>calc.ts\<close>, \<open>constants.ts\<close>)\<close>

text \<open>
  The four enumerations are the string-literal types of the constants file
  (\<open>src/unnamed/part_001\<close>); the tables and the function are those of
  \<open>src/src/lib/calc.ts\<close>.
\<close>

datatype Surface =
  Track_Indoor_Wood
| Track_Outdoor_Concrete
| New_Pavement
| Worn_Pavement_Some_Cracks
| Poor_Pavement_Chipseal
| Cobblestone
| Category_1_Gravel
| Category_2_Gravel
| Category_3_Gravel
| Category_4_Gravel

datatype TireType =
  High_performance_tubeless_latex
| Mid_Range_casing_tubeless_latex
| Mid_Range_casing_butyl
| Puncture_resistant_tubeless_latex

datatype Speed =
  Recreational
| Moderate_Group_Ride
| Fast_Group_Ride
| Cat_1_2_3_Racing
| Pro_Tour
| Fast_Single_Track

datatype WheelDiameter = D_700C_29 | D_650C | D_650B_27_5 | D_26

text \<open>
  The constant and the three coefficient tables. Their entries are numeric literals, so
  they are given as reals and enter the arithmetic as finite numbers (\<open>Num\<close>). The
  function is written with the exact operators: the statements about it compare it with
  the real-valued reference of the specification, bound it and order it, and concern the
  formula, not the rounding of its steps.
\<close>

definition K :: real where
  "K = 20"

fun SURFACE_MULT :: "Surface \<Rightarrow> real" where
  "SURFACE_MULT Track_Indoor_Wood = 0.2"
| "SURFACE_MULT Track_Outdoor_Concrete = 0.15"
| "SURFACE_MULT New_Pavement = 0.05"
| "SURFACE_MULT Worn_Pavement_Some_Cracks = 0"
| "SURFACE_MULT Poor_Pavement_Chipseal = - 0.1"
| "SURFACE_MULT Cobblestone = - 0.2"
| "SURFACE_MULT Category_1_Gravel = - 0.25"
| "SURFACE_MULT Category_2_Gravel = - 0.35"
| "SURFACE_MULT Category_3_Gravel = - 0.45"
| "SURFACE_MULT Category_4_Gravel = - 0.55"

fun TIRE_TYPE_OFFSET :: "TireType \<Rightarrow> real" where
  "TIRE_TYPE_OFFSET High_performance_tubeless_latex = 0"
| "TIRE_TYPE_OFFSET Mid_Range_casing_tubeless_latex = 2"
| "TIRE_TYPE_OFFSET Mid_Range_casing_butyl = 5"
| "TIRE_TYPE_OFFSET Puncture_resistant_tubeless_latex = 7"

fun SPEED_MULT :: "Speed \<Rightarrow> real" where
  "SPEED_MULT Recreational = - 0.05"
| "SPEED_MULT Moderate_Group_Ride = 0"
| "SPEED_MULT Fast_Group_Ride = 0.03"
| "SPEED_MULT Cat_1_2_3_Racing = 0.05"
| "SPEED_MULT Pro_Tour = 0.07"
| "SPEED_MULT Fast_Single_Track = 0.03"

definition clamp :: "number \<Rightarrow> number \<Rightarrow> number \<Rightarrow> number" where
  "clamp v lo hi = Math_max lo (Math_min hi v)"

record ComputeWheelPsiParams =
  loadLbs :: number
  tireWidthMm :: number
  surface :: Surface
  speed :: Speed
  tireType :: TireType
  wheelDiameter :: WheelDiameter

definition computeWheelPsi :: "ComputeWheelPsiParams \<Rightarrow> number" where
  "computeWheelPsi p =
     (let safeTireWidthMm = clamp (tireWidthMm p) (Num 20) (Num 90);
          psi = Num K * (loadLbs p / safeTireWidthMm);
          psi = psi * (Num 1 + Num (SURFACE_MULT (surface p)));
          psi = psi * (Num 1 + Num (SPEED_MULT (speed p)));
          psi = psi + Num (TIRE_TYPE_OFFSET (tireType p))
      in clamp psi (Num 15) (Num 130))"



section \<open>Pressure compensation (\<open>pressureComp.ts\<close>)\<close>

definition C_to_K :: "number \<Rightarrow> number" where
  "C_to_K c = fadd c (literal 273.15)"

text \<open>The last parameter is optional in the source, with the default \<open>false\<close>.\<close>

definition compensatePressurePsi ::
  "number \<Rightarrow> number \<Rightarrow> number \<Rightarrow> number \<Rightarrow> bool option \<Rightarrow> number" where
  "compensatePressurePsi gaugePsiRef refTempC ambientTempC ambientPressurePsi keepAbsoluteConstant =
     (let T_ref = C_to_K refTempC;
          T_now = C_to_K ambientTempC;
          P_abs_ref = fadd gaugePsiRef ambientPressurePsi
      in if or_default keepAbsoluteConstant False then
           (let P_abs_target = P_abs_ref;
                P_gauge_now = fsub P_abs_target ambientPressurePsi
            in P_gauge_now)
         else
           (let P_abs_now = fmul P_abs_ref (fdiv T_now T_ref);
                P_gauge_now = fsub P_abs_now ambientPressurePsi
            in P_gauge_now))"

section \<open>Arithmetic of finite numbers\<close>

lemma minus_Num: "Num a - Num b = Num (a - b)"
  by (simp add: minus_number_def)

lemma divide_Num: "b \<noteq> 0 \<Longrightarrow> Num a / Num b = Num (a / b)"
  by simp

lemma Math_max_Num: "Math_max (Num a) (Num b) = Num (max a b)"
  by (simp add: max_def)

lemma Math_min_Num: "Math_min (Num a) (Num b) = Num (min a b)"
  by (simp add: min_def)

text \<open>The operators on some values, as JavaScript evaluates them.\<close>

lemma remainder_examples:
  "Num (- 90) mod Num 360 = Num (- 90)"
  "Num 450 mod Num 360 = Num 90"
  "Num 5 mod Num (- 3) = Num 2"
  "Num (- 5) mod Num 3 = Num (- 2)"
  "Num 7.5 mod Num 2 = Num 1.5"
  "Infinity mod Num 360 = NaN"
  "Num 5 mod Infinity = Num 5"
  "Num 5 mod Num 0 = NaN"
  by (simp_all add: trunc_quot_def ceiling_def)

lemma arithmetic_examples:
  "Infinity + NegInfinity = NaN"
  "Infinity * Num 0 = NaN"
  "Num 1 / Num 0 = Infinity"
  "Num 0 / Num 0 = NaN"
  "Num 1 / Infinity = Num 0"
  "Infinity - Infinity = NaN"
  "\<not> NaN < Num 0" "\<not> Num 0 \<le> NaN" "\<not> NaN \<le> NaN"
  "Math_round (Num 2.5) = Num 3"
  "Math_round (Num (- 2.5)) = Num (- 2)"
  "Math_max (Num 20) NaN = NaN"
  by (simp_all add: minus_number_def)

lemma index_examples:
  "at_index COMPASS_16 (Num 12) = Some ''W''"
  "at_index COMPASS_16 (Num 16) = None"
  "at_index COMPASS_16 (Num (- 4)) = None"
  "at_index COMPASS_16 (Num 1.5) = None"
  "at_index COMPASS_16 NaN = None"
  by (simp_all add: COMPASS_16_def)

section \<open>Properties of the baseline pressure\<close>

lemma clamp_Num: "clamp (Num v) (Num lo) (Num hi) = Num (max lo (min hi v))"
  by (simp add: clamp_def Math_max_Num Math_min_Num)


text \<open>On finite inputs the function computes a finite number, in closed form.\<close>

lemma computeWheelPsi_Num:
  "computeWheelPsi \<lparr>loadLbs = Num load, tireWidthMm = Num width, surface = s, speed = sp,
      tireType = t, wheelDiameter = d\<rparr> =
   Num (max 15 (min 130
     (20 * (load / max 20 (min 90 width)) * (1 + SURFACE_MULT s) * (1 + SPEED_MULT sp)
      + TIRE_TYPE_OFFSET t)))"
proof -
  have w: "max 20 (min 90 width) \<noteq> 0" by linarith
  show ?thesis
    by (simp add: computeWheelPsi_def clamp_Num K_def divide_Num [OF w]
        del: divide_number.simps)
qed


text \<open>
  \<^bold>\<open>C2.\<close> For every real load (non-negative or not), every real tire width and every
  enumerated surface, speed and tire type, the value of \<open>computeWheelPsi\<close> lies in the
  closed interval \<open>[15, 130]\<close>. The two comparisons are those of the program: they hold
  of no \<open>NaN\<close>, so the result is a number of that interval.
\<close>

theorem computeWheelPsi_range:
  "Num 15 \<le> computeWheelPsi \<lparr>loadLbs = Num load, tireWidthMm = Num width, surface = s,
      speed = sp, tireType = t, wheelDiameter = d\<rparr> \<and>
   computeWheelPsi \<lparr>loadLbs = Num load, tireWidthMm = Num width, surface = s,
      speed = sp, tireType = t, wheelDiameter = d\<rparr> \<le> Num 130"
  by (simp add: computeWheelPsi_Num)

lemma SURFACE_MULT_pos: "0 < 1 + SURFACE_MULT s"
  by (cases s) simp_all

lemma SPEED_MULT_pos: "0 < 1 + SPEED_MULT sp"
  by (cases sp) simp_all

lemma TIRE_TYPE_OFFSET_bounds: "0 \<le> TIRE_TYPE_OFFSET t \<and> TIRE_TYPE_OFFSET t \<le> 7"
  by (cases t) simp_all

lemma psi_mono_load:
  fixes l1 l2 W A B T :: real
  assumes "l1 \<le> l2" "0 < W" "0 < A" "0 < B"
  shows "20 * (l1 / W) * A * B + T \<le> 20 * (l2 / W) * A * B + T"
proof -
  have "l1 / W \<le> l2 / W"
    using assms by (simp add: divide_right_mono)
  then have "20 * (l1 / W) \<le> 20 * (l2 / W)" by simp
  then have "20 * (l1 / W) * A \<le> 20 * (l2 / W) * A"
    by (rule mult_right_mono) (use assms in simp)
  then have "20 * (l1 / W) * A * B \<le> 20 * (l2 / W) * A * B"
    by (rule mult_right_mono) (use assms in simp)
  then show ?thesis by simp
qed

lemma psi_mono_width:
  fixes l W1 W2 A B T :: real
  assumes "0 \<le> l" "0 < W1" "W1 \<le> W2" "0 < A" "0 < B"
  shows "20 * (l / W2) * A * B + T \<le> 20 * (l / W1) * A * B + T"
proof -
  have "l / W2 \<le> l / W1"
    using assms by (simp add: frac_le)
  then have "20 * (l / W2) \<le> 20 * (l / W1)" by simp
  then have "20 * (l / W2) * A \<le> 20 * (l / W1) * A"
    by (rule mult_right_mono) (use assms in simp)
  then have "20 * (l / W2) * A * B \<le> 20 * (l / W1) * A * B"
    by (rule mult_right_mono) (use assms in simp)
  then show ?thesis by simp
qed

text \<open>A negative load gives a pressure under the lower clamp, whatever the width.\<close>

lemma psi_neg_load:
  fixes l W A B T :: real
  assumes "l < 0" "0 < W" "0 < A" "0 < B" "T \<le> 7"
  shows "20 * (l / W) * A * B + T \<le> 15"
proof -
  have "l / W \<le> 0" using assms by (simp add: divide_le_0_iff)
  then have "20 * (l / W) \<le> 0" by simp
  then have "20 * (l / W) * A \<le> 0"
    by (rule mult_nonpos_nonneg) (use assms in simp)
  then have "20 * (l / W) * A * B \<le> 0"
    by (rule mult_nonpos_nonneg) (use assms in simp)
  then show ?thesis using assms by linarith
qed

text \<open>
  \<^bold>\<open>C3.\<close> With the surface, the speed, the tire type and the tire width fixed,
  \<open>computeWheelPsi\<close> is non-decreasing in the load; with the load and the categories
  fixed, it is non-increasing in the tire width. The second part holds of any two
  widths \<open>w1 \<le> w2\<close>, so of those of the clamped range \<open>[20, 90]\<close>, and of any load.
\<close>

theorem computeWheelPsi_monotone:
  "(l1 \<le> l2 \<longrightarrow>
      computeWheelPsi \<lparr>loadLbs = Num l1, tireWidthMm = Num w, surface = s, speed = sp,
        tireType = t, wheelDiameter = d\<rparr>
      \<le> computeWheelPsi \<lparr>loadLbs = Num l2, tireWidthMm = Num w, surface = s, speed = sp,
        tireType = t, wheelDiameter = d\<rparr>) \<and>
   (w1 \<le> w2 \<longrightarrow>
      computeWheelPsi \<lparr>loadLbs = Num l, tireWidthMm = Num w2, surface = s, speed = sp,
        tireType = t, wheelDiameter = d\<rparr>
      \<le> computeWheelPsi \<lparr>loadLbs = Num l, tireWidthMm = Num w1, surface = s, speed = sp,
        tireType = t, wheelDiameter = d\<rparr>)"
proof (intro conjI impI)
  assume le: "l1 \<le> l2"
  have W: "0 < max 20 (min 90 w)" by linarith
  have "20 * (l1 / max 20 (min 90 w)) * (1 + SURFACE_MULT s) * (1 + SPEED_MULT sp)
          + TIRE_TYPE_OFFSET t
        \<le> 20 * (l2 / max 20 (min 90 w)) * (1 + SURFACE_MULT s) * (1 + SPEED_MULT sp)
          + TIRE_TYPE_OFFSET t"
    by (rule psi_mono_load [OF le W SURFACE_MULT_pos SPEED_MULT_pos])
  then show "computeWheelPsi \<lparr>loadLbs = Num l1, tireWidthMm = Num w, surface = s, speed = sp,
        tireType = t, wheelDiameter = d\<rparr>
      \<le> computeWheelPsi \<lparr>loadLbs = Num l2, tireWidthMm = Num w, surface = s, speed = sp,
        tireType = t, wheelDiameter = d\<rparr>"
    unfolding computeWheelPsi_Num less_eq_number.simps by linarith
next
  assume le: "w1 \<le> w2"
  have W1: "0 < max 20 (min 90 w1)" by linarith
  have W2: "0 < max 20 (min 90 w2)" by linarith
  have W12: "max 20 (min 90 w1) \<le> max 20 (min 90 w2)" using le by linarith
  show "computeWheelPsi \<lparr>loadLbs = Num l, tireWidthMm = Num w2, surface = s, speed = sp,
        tireType = t, wheelDiameter = d\<rparr>
      \<le> computeWheelPsi \<lparr>loadLbs = Num l, tireWidthMm = Num w1, surface = s, speed = sp,
        tireType = t, wheelDiameter = d\<rparr>"
  proof (cases "0 \<le> l")
    case True
    have "20 * (l / max 20 (min 90 w2)) * (1 + SURFACE_MULT s) * (1 + SPEED_MULT sp)
            + TIRE_TYPE_OFFSET t
          \<le> 20 * (l / max 20 (min 90 w1)) * (1 + SURFACE_MULT s) * (1 + SPEED_MULT sp)
            + TIRE_TYPE_OFFSET t"
      by (rule psi_mono_width [OF True W1 W12 SURFACE_MULT_pos SPEED_MULT_pos])
    then show ?thesis
      unfolding computeWheelPsi_Num less_eq_number.simps by linarith
  next
    case False
    then have neg: "l < 0" by simp
    have T: "TIRE_TYPE_OFFSET t \<le> 7" using TIRE_TYPE_OFFSET_bounds by simp
    have "20 * (l / max 20 (min 90 w1)) * (1 + SURFACE_MULT s) * (1 + SPEED_MULT sp)
            + TIRE_TYPE_OFFSET t \<le> 15"
      by (rule psi_neg_load [OF neg W1 SURFACE_MULT_pos SPEED_MULT_pos T])
    moreover have "20 * (l / max 20 (min 90 w2)) * (1 + SURFACE_MULT s) * (1 + SPEED_MULT sp)
            + TIRE_TYPE_OFFSET t \<le> 15"
      by (rule psi_neg_load [OF neg W2 SURFACE_MULT_pos SPEED_MULT_pos T])
    ultimately show ?thesis
      unfolding computeWheelPsi_Num less_eq_number.simps by linarith
  qed
qed

text \<open>
  The theorem at a rear-wheel load of 90 against 80 pounds on a 28 mm tire, and at
  widths 25 and 28 mm under 86.4 pounds.
\<close>

theorem computeWheelPsi_monotone_witness:
  "(80 :: real) \<le> 90 \<and>
   computeWheelPsi \<lparr>loadLbs = Num 80, tireWidthMm = Num 28,
       surface = Worn_Pavement_Some_Cracks, speed = Moderate_Group_Ride,
       tireType = High_performance_tubeless_latex, wheelDiameter = D_700C_29\<rparr>
     \<le> computeWheelPsi \<lparr>loadLbs = Num 90, tireWidthMm = Num 28,
       surface = Worn_Pavement_Some_Cracks, speed = Moderate_Group_Ride,
       tireType = High_performance_tubeless_latex, wheelDiameter = D_700C_29\<rparr> \<and>
   (25 :: real) \<le> 28 \<and>
   computeWheelPsi \<lparr>loadLbs = Num 86.4, tireWidthMm = Num 28,
       surface = Worn_Pavement_Some_Cracks, speed = Moderate_Group_Ride,
       tireType = High_performance_tubeless_latex, wheelDiameter = D_700C_29\<rparr>
     \<le> computeWheelPsi \<lparr>loadLbs = Num 86.4, tireWidthMm = Num 25,
       surface = Worn_Pavement_Some_Cracks, speed = Moderate_Group_Ride,
       tireType = High_performance_tubeless_latex, wheelDiameter = D_700C_29\<rparr>"
  using computeWheelPsi_monotone [of 80 90 28 Worn_Pavement_Some_Cracks Moderate_Group_Ride
      High_performance_tubeless_latex D_700C_29 25 28 "86.4"]
  by simp

section \<open>Rounding\<close>

text \<open>
  The exponent of a number other than 0 is the integer its definition is after, and it
  can be computed by halving and doubling.
\<close>

lemma binade_bounds:
  assumes "x \<noteq> 0"
  shows "2 powi binade x \<le> \<bar>x\<bar> \<and> \<bar>x\<bar> < 2 powi (binade x + 1)"
proof -
  have pos: "0 < \<bar>x\<bar>" using assms by simp
  have p: "2 powr (of_int k) = (2::real) powi k" for k
    by (rule powr_real_of_int') simp_all
  have "\<lfloor>log 2 \<bar>x\<bar>\<rfloor> = binade x" using assms by (simp add: binade_def)
  then have "2 powr (of_int (binade x)) \<le> \<bar>x\<bar> \<and> \<bar>x\<bar> < 2 powr (of_int (binade x) + 1)"
    using floor_log_eq_powr_iff [of "\<bar>x\<bar>" 2 "binade x"] pos by simp
  moreover have "of_int (binade x) + 1 = real_of_int (binade x + 1)" by simp
  ultimately show ?thesis
    unfolding p by (simp only: p)
qed

lemma binade_unique:
  assumes "2 powi b \<le> \<bar>x\<bar>" "\<bar>x\<bar> < 2 powi (b + 1)"
  shows "binade x = b"
proof -
  have pos: "0 < \<bar>x\<bar>"
    using assms(1) zero_less_power_int [of "2::real" b] by linarith
  have p: "2 powr (of_int k) = (2::real) powi k" for k
    by (rule powr_real_of_int') simp_all
  have e: "of_int b + 1 = real_of_int (b + 1)" by simp
  have "2 powr (of_int b) \<le> \<bar>x\<bar> \<and> \<bar>x\<bar> < 2 powr (of_int b + 1)"
    unfolding e p using assms by simp
  then have "\<lfloor>log 2 \<bar>x\<bar>\<rfloor> = b"
    using floor_log_eq_powr_iff [of "\<bar>x\<bar>" 2 b] pos by simp
  then show ?thesis using pos by (simp add: binade_def)
qed

lemma binade_rec:
  "binade x =
     (if x = 0 then 0
      else if 2 \<le> \<bar>x\<bar> then binade (x / 2) + 1
      else if \<bar>x\<bar> < 1 then binade (x * 2) - 1
      else 0)"
proof (cases "x = 0")
  case True
  then show ?thesis by (simp add: binade_def)
next
  case False
  note b = binade_bounds [OF False]
  show ?thesis
  proof (cases "2 \<le> \<bar>x\<bar>")
    case True
    have "binade (x / 2) = binade x - 1"
    proof (rule binade_unique)
      have "2 powi binade x = 2 powi (binade x - 1) * (2::real)"
        by (simp add: power_int_diff)
      then show "2 powi (binade x - 1) \<le> \<bar>x / 2\<bar>" using b by simp
      have "2 powi (binade x + 1) = 2 powi (binade x - 1 + 1) * (2::real)"
        by (simp add: power_int_add)
      then show "\<bar>x / 2\<bar> < 2 powi (binade x - 1 + 1)" using b by simp
    qed
    with True False show ?thesis by simp
  next
    case nt: False
    show ?thesis
    proof (cases "\<bar>x\<bar> < 1")
      case True
      have "binade (x * 2) = binade x + 1"
      proof (rule binade_unique)
        have "2 powi (binade x + 1) = 2 powi binade x * (2::real)"
          by (simp add: power_int_add)
        then show "2 powi (binade x + 1) \<le> \<bar>x * 2\<bar>" using b by (simp add: abs_mult)
        have "2 powi (binade x + 1 + 1) = 2 powi (binade x + 1) * (2::real)"
          by (simp add: power_int_add)
        then show "\<bar>x * 2\<bar> < 2 powi (binade x + 1 + 1)" using b by (simp add: abs_mult)
      qed
      with True nt False show ?thesis by simp
    next
      case False
      have "binade x = 0"
        by (rule binade_unique) (use False nt in simp_all)
      with False nt \<open>x \<noteq> 0\<close> show ?thesis by simp
    qed
  qed
qed

lemma binade_less:
  assumes "x \<noteq> 0" "\<bar>x\<bar> < 2 powi k"
  shows "binade x < k"
proof (rule ccontr)
  assume "\<not> binade x < k"
  then have "k \<le> binade x" by simp
  then have "(2::real) powi k \<le> 2 powi binade x"
    by (intro power_int_increasing) simp_all
  with binade_bounds [OF assms(1)] assms(2) show False by linarith
qed


lemma ulp_exponent_lower: "- 1074 \<le> ulp_exponent x"
  by (simp add: ulp_exponent_def)

lemma ulp_exponent_binade: "binade x - 52 \<le> ulp_exponent x"
  by (simp add: ulp_exponent_def)

text \<open>
  The nearest integer is at most a half away, is the number itself on an integer, and
  keeps the order against an integer; a tie, or less, above an even integer goes down to
  it.
\<close>

lemma round_even_error: "\<bar>of_int (round_even y) - y\<bar> \<le> 1 / 2"
proof -
  have "of_int \<lfloor>y\<rfloor> \<le> y" "y < of_int \<lfloor>y\<rfloor> + 1" by linarith+
  then show ?thesis
    by (auto simp add: round_even_def Let_def)
qed

lemma round_even_of_int: "round_even (of_int n) = n"
  by (simp add: round_even_def)

lemma round_even_le: "y \<le> of_int n \<Longrightarrow> round_even y \<le> n"
proof -
  assume a: "y \<le> of_int n"
  have le: "\<lfloor>y\<rfloor> \<le> n" using a by (simp add: floor_le_iff)
  show ?thesis
  proof (cases "\<lfloor>y\<rfloor> = n")
    case True
    then have "y - of_int \<lfloor>y\<rfloor> < 1 / 2" using a by linarith
    then show ?thesis using True by (simp add: round_even_def Let_def)
  next
    case False
    then have "\<lfloor>y\<rfloor> + 1 \<le> n" using le by linarith
    then show ?thesis using le by (simp add: round_even_def Let_def)
  qed
qed

lemma round_even_ge: "of_int n \<le> y \<Longrightarrow> n \<le> round_even y"
proof -
  assume a: "of_int n \<le> y"
  have "n \<le> \<lfloor>y\<rfloor>" using a by (simp add: le_floor_iff)
  then show ?thesis
    by (auto simp add: round_even_def Let_def)
qed


text \<open>
  The error of a rounding is at most half the gap between the doubles around the number:
  at most \<open>2 ^ - 45\<close> below 512, and at most the fraction \<open>2 ^ - 53\<close> of the number
  apart from the \<open>2 ^ - 1075\<close> of the subnormal range. Only a number of magnitude
  \<open>2 ^ - 1075\<close> or less rounds to 0.
\<close>

lemma fl_zero: "fl 0 = 0"
  by (simp add: fl_def)

lemma fl_error:
  assumes "x \<noteq> 0"
  shows "\<bar>fl x - x\<bar> \<le> 2 powi ulp_exponent x / 2"
proof -
  let ?q = "(2::real) powi ulp_exponent x"
  have q: "0 < ?q" by simp
  have "fl x - x = (of_int (round_even (x / ?q)) - x / ?q) * ?q"
    using assms q by (simp add: fl_def field_simps)
  then have "\<bar>fl x - x\<bar> = \<bar>of_int (round_even (x / ?q)) - x / ?q\<bar> * ?q"
    using q by (simp add: abs_mult)
  also have "\<dots> \<le> (1 / 2) * ?q"
    by (rule mult_right_mono [OF round_even_error]) (use q in simp)
  finally show ?thesis by simp
qed


lemma fl_error_rel: "\<bar>fl x - x\<bar> \<le> \<bar>x\<bar> / 2 ^ 53 + 1 / 2 ^ 1075"
proof (cases "x = 0")
  case True
  then show ?thesis by (simp add: fl_zero)
next
  case False
  show ?thesis
  proof (cases "- 1022 \<le> binade x")
    case True
    then have e: "ulp_exponent x = binade x - 52" by (simp add: ulp_exponent_def)
    have "(2::real) powi ulp_exponent x / 2 = 2 powi binade x / 2 ^ 53"
      unfolding e by (simp add: power_int_diff)
    also have "\<dots> \<le> \<bar>x\<bar> / 2 ^ 53"
      using binade_bounds [OF False] by (simp add: divide_right_mono)
    finally have "(2::real) powi ulp_exponent x / 2 \<le> \<bar>x\<bar> / 2 ^ 53" .
    moreover have "0 \<le> 1 / (2::real) ^ 1075" by simp
    ultimately show ?thesis using fl_error [OF False] by linarith
  next
    case False
    then have e: "ulp_exponent x = - 1074" by (simp add: ulp_exponent_def)
    have "(2::real) powi ulp_exponent x / 2 = 1 / 2 ^ 1075"
      unfolding e by (simp add: power_int_minus)
    moreover have "0 \<le> \<bar>x\<bar> / 2 ^ 53" by simp
    ultimately show ?thesis using fl_error [OF \<open>x \<noteq> 0\<close>] by linarith
  qed
qed

lemma fl_is_zero:
  assumes "fl x = 0"
  shows "\<bar>x\<bar> \<le> 1 / 2 ^ 1075"
proof (cases "x = 0")
  case True
  then show ?thesis by simp
next
  case False
  have err: "\<bar>x\<bar> \<le> 2 powi ulp_exponent x / 2"
    using fl_error [OF False] assms by simp
  have "binade x < - 1022"
  proof (rule ccontr)
    assume "\<not> binade x < - 1022"
    then have e: "ulp_exponent x = binade x - 52" by (simp add: ulp_exponent_def)
    have "(2::real) powi (binade x - 52) \<le> 2 powi binade x"
      by (intro power_int_increasing) simp_all
    moreover have "0 < (2::real) powi (binade x - 52)" by simp
    ultimately have "(2::real) powi (binade x - 52) / 2 < 2 powi binade x" by linarith
    with err binade_bounds [OF False] show False unfolding e by linarith
  qed
  then have "ulp_exponent x = - 1074" by (simp add: ulp_exponent_def)
  with err show ?thesis by (simp add: power_int_minus)
qed

text \<open>
  Rounding keeps the sign, and does not carry a number across a power of two that is a
  double.
\<close>

lemma fl_nonneg: "0 \<le> x \<Longrightarrow> 0 \<le> fl x"
proof -
  assume a: "0 \<le> x"
  have "of_int 0 \<le> x / 2 powi ulp_exponent x" using a by simp
  then have "0 \<le> round_even (x / 2 powi ulp_exponent x)"
    by (rule round_even_ge)
  then show ?thesis by (simp add: fl_def)
qed


lemma fl_le_pow2:
  assumes "\<bar>x\<bar> \<le> 2 powi k" "- 1074 \<le> k"
  shows "\<bar>fl x\<bar> \<le> 2 powi k"
proof (cases "x = 0")
  case True
  then show ?thesis by (simp add: fl_zero)
next
  case False
  let ?e = "ulp_exponent x"
  let ?q = "(2::real) powi ?e"
  have q: "0 < ?q" by simp
  have "binade x < k + 1"
  proof (rule binade_less [OF False])
    have "(2::real) powi k < 2 powi (k + 1)"
      by (intro power_int_strict_increasing) simp_all
    with assms(1) show "\<bar>x\<bar> < 2 powi (k + 1)" by linarith
  qed
  then have e: "?e \<le> k"
    using assms(2) by (simp add: ulp_exponent_def)
  let ?N = "(2::int) ^ nat (k - ?e)"
  have N: "of_int ?N = (2::real) powi (k - ?e)"
    using e by (simp add: power_int_def)
  have split: "(2::real) powi k = of_int ?N * ?q"
    unfolding N by (simp add: power_int_diff)
  have up: "x / ?q \<le> of_int ?N"
    using assms(1) q unfolding split by (simp add: pos_divide_le_eq)
  have lo: "of_int (- ?N) \<le> x / ?q"
    using assms(1) q unfolding split by (simp add: pos_le_divide_eq)
  have "round_even (x / ?q) \<le> ?N" by (rule round_even_le [OF up])
  moreover have "- ?N \<le> round_even (x / ?q)" by (rule round_even_ge [OF lo])
  ultimately have "\<bar>round_even (x / ?q)\<bar> \<le> ?N" by simp
  then have "\<bar>real_of_int (round_even (x / ?q))\<bar> \<le> of_int ?N"
    by (metis of_int_abs of_int_le_iff)
  then have "\<bar>real_of_int (round_even (x / ?q))\<bar> * ?q \<le> of_int ?N * ?q"
    by (rule mult_right_mono) simp
  then show ?thesis
    using False unfolding split by (simp add: fl_def abs_mult)
qed


text \<open>
  The doubles are the numbers that rounding leaves as they are: every integer of at most
  53 bits times a power of two from \<open>2 ^ - 1074\<close> on is one, a rounded number is
  one, and each is a multiple of \<open>2 ^ - 1074\<close>.
\<close>

lemma fl_scaled_bound:
  assumes "x \<noteq> 0"
  shows "\<bar>x / 2 powi ulp_exponent x\<bar> < 2 ^ 53"
proof -
  let ?e = "ulp_exponent x"
  have "binade x + 1 \<le> ?e + 53" using ulp_exponent_binade [of x] by simp
  then have "(2::real) powi (binade x + 1) \<le> 2 powi (?e + 53)"
    by (intro power_int_increasing) simp_all
  also have "\<dots> = 2 powi ?e * 2 ^ 53"
    by (simp add: power_int_add)
  finally have "\<bar>x\<bar> < 2 powi ?e * 2 ^ 53"
    using binade_bounds [OF assms] by linarith
  then show ?thesis
    by (simp add: abs_divide pos_divide_less_eq mult.commute)
qed

lemma fl_of_scaled_int:
  assumes "x \<noteq> 0" "x / 2 powi ulp_exponent x = of_int m"
  shows "fl x = x"
proof -
  have "fl x = of_int m * 2 powi ulp_exponent x"
    using assms by (simp add: fl_def round_even_of_int)
  also have "\<dots> = x"
    using assms(2) by (simp add: field_simps)
  finally show ?thesis .
qed

lemma fl_exact:
  assumes "\<bar>n\<bar> \<le> 2 ^ 53" "- 1074 \<le> k"
  shows "fl (of_int n * 2 powi k) = of_int n * 2 powi k"
proof (cases "n = 0")
  case True
  then show ?thesis by (simp add: fl_zero)
next
  case False
  let ?x = "real_of_int n * 2 powi k"
  let ?e = "ulp_exponent ?x"
  have nz: "?x \<noteq> 0" using False by simp
  have absx: "\<bar>?x\<bar> = of_int \<bar>n\<bar> * 2 powi k" by (simp add: abs_mult)
  show ?thesis
  proof (cases "\<bar>n\<bar> = 2 ^ 53")
    case True
    have "\<bar>?x\<bar> = 2 powi (k + 53)"
      unfolding absx True by (simp add: power_int_add)
    then have "binade ?x = k + 53"
      by (intro binade_unique) (simp_all add: power_int_add)
    then have e: "?e = k + 1"
      using assms(2) by (simp add: ulp_exponent_def)
    have "even n"
    proof -
      have "even \<bar>n\<bar>" unfolding True by simp
      then show ?thesis by simp
    qed
    then obtain m where m: "n = 2 * m" by (elim evenE)
    have "?x / 2 powi ?e = of_int n * 2 powi k / 2 powi (k + 1)"
      by (simp only: e)
    also have "\<dots> = of_int m"
      unfolding m by (simp add: power_int_add)
    finally show ?thesis by (rule fl_of_scaled_int [OF nz])
  next
    case ne: False
    with assms(1) have lt: "\<bar>n\<bar> < 2 ^ 53" by simp
    then have "real_of_int \<bar>n\<bar> < 2 ^ 53"
      by (metis of_int_less_iff of_int_numeral of_int_power)
    then have "\<bar>?x\<bar> < 2 ^ 53 * 2 powi k"
      unfolding absx by (simp add: mult_strict_right_mono)
    then have "\<bar>?x\<bar> < 2 powi (k + 53)"
      by (simp add: power_int_add mult.commute)
    then have "binade ?x < k + 53" by (rule binade_less [OF nz])
    then have e: "?e \<le> k"
      using assms(2) by (simp add: ulp_exponent_def)
    define e where "e = ?e"
    define N :: int where "N = 2 ^ nat (k - e)"
    have "(2::real) powi (k - e) = of_int N"
      using e unfolding e_def N_def by (simp add: power_int_def)
    then have "(2::real) powi k = of_int N * 2 powi e"
      by (simp add: power_int_diff field_simps)
    then have "real_of_int n * 2 powi k / 2 powi e = of_int (n * N)"
      by simp
    then have "?x / 2 powi ?e = of_int (n * N)"
      unfolding e_def .
    then show ?thesis by (rule fl_of_scaled_int [OF nz])
  qed
qed

lemma fl_idem: "fl (fl x) = fl x"
proof (cases "x = 0")
  case True
  then show ?thesis by (simp add: fl_zero)
next
  case False
  let ?e = "ulp_exponent x"
  let ?n = "round_even (x / 2 powi ?e)"
  have b: "\<bar>x / 2 powi ?e\<bar> < 2 ^ 53" by (rule fl_scaled_bound [OF False])
  have "x / 2 powi ?e \<le> 2 ^ 53" using b by linarith
  then have "x / 2 powi ?e \<le> of_int (2 ^ 53)" by simp
  then have up: "?n \<le> 2 ^ 53" by (rule round_even_le)
  have "- (2 ^ 53) \<le> x / 2 powi ?e" using b by linarith
  then have "of_int (- (2 ^ 53)) \<le> x / 2 powi ?e" by simp
  then have lo: "- (2 ^ 53) \<le> ?n" by (rule round_even_ge)
  have n: "\<bar>?n\<bar> \<le> 2 ^ 53" using up lo by simp
  have "fl x = of_int ?n * 2 powi ?e" using False by (simp add: fl_def)
  then show ?thesis
    using fl_exact [OF n ulp_exponent_lower [of x]] by simp
qed

lemma fl_of_int: "\<bar>n\<bar> \<le> 2 ^ 53 \<Longrightarrow> fl (of_int n) = of_int n"
  using fl_exact [of n 0] by simp

lemma fl_one: "fl 1 = 1"
  using fl_of_int [of 1] by simp

lemma double_multiple:
  "\<exists>m. fl x = of_int m * 2 powi (- 1074)"
proof (cases "x = 0")
  case True
  then show ?thesis by (simp add: fl_zero)
next
  case False
  let ?e = "ulp_exponent x"
  have e: "- 1074 \<le> ?e" by (rule ulp_exponent_lower)
  have "(2::real) powi ?e = 2 powi ((?e + 1074) + (- 1074))" by simp
  also have "\<dots> = 2 powi (?e + 1074) * 2 powi (- 1074)"
    by (rule power_int_add) simp
  also have "(2::real) powi (?e + 1074) = of_int (2 ^ nat (?e + 1074))"
    using e by (simp add: power_int_def)
  finally have "fl x = of_int (round_even (x / 2 powi ?e) * 2 ^ nat (?e + 1074)) * 2 powi (- 1074)"
    using False by (simp add: fl_def)
  then show ?thesis by blast
qed


text \<open>
  Adding a number and subtracting it again, each time with a rounding, gives the first
  number back up to the two rounding errors.
\<close>

lemma fl_add_sub:
  assumes "\<bar>g\<bar> + \<bar>a\<bar> \<le> 2 ^ 1022"
  shows "\<bar>fl (g + a)\<bar> \<le> 2 ^ 1022"
    and "\<bar>fl (g + a) - a\<bar> \<le> 2 ^ 1023"
    and "\<bar>fl (fl (g + a) - a) - g\<bar> \<le> (\<bar>g\<bar> + \<bar>a\<bar>) / 2 ^ 51 + 1 / 2 ^ 1073"
proof -
  let ?p = "fl (g + a)"
  have "\<bar>g + a\<bar> \<le> 2 powi 1022" using assms by simp
  then have "\<bar>?p\<bar> \<le> 2 powi 1022" by (rule fl_le_pow2) simp
  then show p: "\<bar>?p\<bar> \<le> 2 ^ 1022" by simp
  then show "\<bar>?p - a\<bar> \<le> 2 ^ 1023" using assms by simp
  have e1: "\<bar>?p - (g + a)\<bar> \<le> \<bar>g + a\<bar> / 2 ^ 53 + 1 / 2 ^ 1075"
    by (rule fl_error_rel)
  have e2: "\<bar>fl (?p - a) - (?p - a)\<bar> \<le> \<bar>?p - a\<bar> / 2 ^ 53 + 1 / 2 ^ 1075"
    by (rule fl_error_rel)
  define d1 where "d1 = \<bar>?p - (g + a)\<bar>"
  define S where "S = \<bar>g\<bar> + \<bar>a\<bar>"
  have d1: "d1 \<le> S / 2 ^ 53 + 1 / 2 ^ 1075"
  proof -
    have "\<bar>g + a\<bar> / 2 ^ 53 \<le> S / 2 ^ 53"
      unfolding S_def by (rule divide_right_mono) simp_all
    with e1 show ?thesis unfolding d1_def by linarith
  qed
  have pa: "\<bar>?p - a\<bar> \<le> S + d1" unfolding S_def d1_def by linarith
  have "\<bar>?p - a\<bar> / 2 ^ 53 \<le> (S + d1) / 2 ^ 53"
    by (rule divide_right_mono [OF pa]) simp
  also have "\<dots> \<le> S / 2 ^ 53 + d1"
  proof -
    have "0 \<le> d1" unfolding d1_def by simp
    then have "d1 / 2 ^ 53 \<le> d1" by (simp add: field_simps)
    then show ?thesis by (simp add: add_divide_distrib)
  qed
  finally have d2: "\<bar>fl (?p - a) - (?p - a)\<bar> \<le> S / 2 ^ 53 + d1 + 1 / 2 ^ 1075"
    using e2 by linarith
  have "\<bar>fl (?p - a) - g\<bar> \<le> \<bar>fl (?p - a) - (?p - a)\<bar> + d1"
    unfolding d1_def by linarith
  with d2 d1 have "\<bar>fl (?p - a) - g\<bar> \<le> 3 * (S / 2 ^ 53) + 3 * (1 / 2 ^ 1075)"
    by linarith
  moreover have "0 \<le> S" unfolding S_def by simp
  ultimately show "\<bar>fl (?p - a) - g\<bar> \<le> (\<bar>g\<bar> + \<bar>a\<bar>) / 2 ^ 51 + 1 / 2 ^ 1073"
    unfolding S_def [symmetric] by simp
qed

text \<open>
  Rounding a number: without overflow below \<open>2 ^ 1023\<close>. The last three facts
  evaluate a rounding on a rational number.
\<close>

lemma overflow_Num: "\<bar>y\<bar> < 2 ^ 1024 \<Longrightarrow> overflow y = Num y"
  by (simp add: overflow_def)

lemma rnd_Num_bound:
  assumes "\<bar>x\<bar> \<le> 2 powi k" "- 1074 \<le> k" "k \<le> 1023"
  shows "rnd (Num x) = Num (fl x) \<and> \<bar>fl x\<bar> \<le> 2 powi k"
proof -
  have b: "\<bar>fl x\<bar> \<le> 2 powi k" by (rule fl_le_pow2 [OF assms(1,2)])
  have "(2::real) powi k \<le> 2 powi 1023"
    using assms(3) by (intro power_int_increasing) simp_all
  also have "\<dots> < 2 ^ 1024" by simp
  finally have "\<bar>fl x\<bar> < 2 ^ 1024" using b by linarith
  then show ?thesis using b by (simp add: overflow_Num)
qed

lemma rnd_Num: "\<bar>x\<bar> \<le> 2 ^ 1023 \<Longrightarrow> rnd (Num x) = Num (fl x)"
  using rnd_Num_bound [of x 1023] by simp

lemma rnd_zero: "rnd (Num 0) = Num 0"
  by (simp add: fl_zero overflow_def)

lemma binade_rat:
  "x \<in> \<rat> \<Longrightarrow>
   binade x =
     (if x = 0 then 0
      else if 2 \<le> \<bar>x\<bar> then binade (x / 2) + 1
      else if \<bar>x\<bar> < 1 then binade (x * 2) - 1
      else 0)"
  by (rule binade_rec)

lemma fl_rat:
  "x \<in> \<rat> \<Longrightarrow>
   fl x =
     (if x = 0 then 0
      else of_int (round_even (x / 2 powi ulp_exponent x)) * 2 powi ulp_exponent x)"
  by (rule fl_def)

lemmas double_eval =
  fadd_def fsub_def fmul_def fdiv_def literal_def overflow_def fl_rat binade_rat
  ulp_exponent_def round_even_def minus_Num Let_def

text \<open>
  Some doubles: literals that are not dyadic, with \<open>0.1 + 0.2\<close>, which is not the
  double \<open>0.3\<close>, and a quotient.
\<close>

lemma literal_examples:
  "literal 0.4 = Num (3602879701896397 / 2 ^ 53)"
  "literal 273.15 = Num (2402652809016115 / 2 ^ 43)"
  "literal 14.7 = Num (4137682157646643 / 2 ^ 48)"
  "fadd (Num 0.5) (Num 0.25) = Num 0.75"
  "fadd (literal 0.1) (literal 0.2) = Num (1351079888211149 / 2 ^ 52)"
  "literal 0.3 = Num (5404319552844595 / 2 ^ 54)"
  "fdiv (Num 1) (Num (- 3)) = Num (- (6004799503160661 / 2 ^ 54))"
  by (simp_all add: double_eval)

section \<open>Properties of the pressure compensation\<close>

text \<open>
  The temperature in kelvins: the sum with the double \<open>273.15\<close>, rounded. For a
  temperature that is a double it is 0 at the double \<open>-273.15\<close> only, the sum of two
  doubles being a multiple of \<open>2 ^ - 1074\<close>.
\<close>

lemma C_to_K_Num:
  assumes "\<bar>t\<bar> \<le> 2 ^ 1022"
  shows "C_to_K (Num t) = Num (fl (t + 2402652809016115 / 2 ^ 43))"
proof -
  have l: "literal 273.15 = Num (2402652809016115 / 2 ^ 43)"
    by (simp add: double_eval)
  have "\<bar>t + 2402652809016115 / 2 ^ 43\<bar> \<le> 2 ^ 1023"
    using assms by simp
  then show ?thesis
    by (simp only: C_to_K_def fadd_def l plus_number.simps rnd_Num)
qed

lemma C_to_K_nonzero:
  assumes "fl t = t" "t \<noteq> - (2402652809016115 / 2 ^ 43)" "\<bar>t\<bar> \<le> 2 ^ 1022"
  shows "\<exists>T. C_to_K (Num t) = Num T \<and> T \<noteq> 0"
proof -
  let ?c = "2402652809016115 / 2 ^ 43 :: real"
  obtain m where m: "t = of_int m * 2 powi (- 1074)"
    using double_multiple [of t] assms(1) by auto
  have c: "?c = of_int (2402652809016115 * 2 ^ 1031) * 2 powi (- 1074)"
    by (simp add: power_int_minus)
  have sum: "t + ?c = of_int (m + 2402652809016115 * 2 ^ 1031) * 2 powi (- 1074)"
    unfolding m c by (simp only: of_int_add distrib_right)
  have "m + 2402652809016115 * 2 ^ 1031 \<noteq> 0"
  proof
    assume "m + 2402652809016115 * 2 ^ 1031 = 0"
    with sum have "t + ?c = 0" by simp
    with assms(2) show False by simp
  qed
  then have "1 \<le> \<bar>m + 2402652809016115 * 2 ^ 1031\<bar>" by simp
  then have "1 \<le> \<bar>real_of_int (m + 2402652809016115 * 2 ^ 1031)\<bar>"
    by (metis of_int_1_le_iff of_int_abs)
  then have "1 * 2 powi (- 1074) \<le> \<bar>real_of_int (m + 2402652809016115 * 2 ^ 1031)\<bar> * 2 powi (- 1074)"
    by (rule mult_right_mono) simp
  then have big: "2 powi (- 1074) \<le> \<bar>t + ?c\<bar>"
    unfolding sum by (simp add: abs_mult)
  have "fl (t + ?c) \<noteq> 0"
  proof
    assume "fl (t + ?c) = 0"
    then have "\<bar>t + ?c\<bar> \<le> 1 / 2 ^ 1075" by (rule fl_is_zero)
    with big show False by (simp add: power_int_minus)
  qed
  then show ?thesis using C_to_K_Num [OF assms(3)] by simp
qed

text \<open>
  The gauge-constant mode at equal temperatures and the absolute-constant mode both
  compute \<open>(gauge + ambient) - ambient\<close>, each operation rounded; in the first the sum
  is multiplied by the ratio of the temperatures, which is 1.
\<close>

lemma compensate_add_sub:
  assumes "\<bar>g\<bar> + \<bar>a\<bar> \<le> 2 ^ 1022"
  shows "fsub (fadd (Num g) (Num a)) (Num a) = Num (fl (fl (g + a) - a))"
proof -
  have "\<bar>g + a\<bar> \<le> 2 ^ 1023" using assms by simp
  then have "fadd (Num g) (Num a) = Num (fl (g + a))"
    by (simp only: fadd_def plus_number.simps rnd_Num)
  moreover have "rnd (Num (fl (g + a) - a)) = Num (fl (fl (g + a) - a))"
    by (rule rnd_Num [OF fl_add_sub(2) [OF assms]])
  ultimately show ?thesis
    by (simp only: fsub_def minus_Num)
qed

lemma compensate_times_one:
  assumes "\<bar>g\<bar> + \<bar>a\<bar> \<le> 2 ^ 1022" "T \<noteq> 0"
  shows "fmul (fadd (Num g) (Num a)) (fdiv (Num T) (Num T)) = fadd (Num g) (Num a)"
proof -
  have "\<bar>g + a\<bar> \<le> 2 ^ 1023" using assms by simp
  then have p: "fadd (Num g) (Num a) = Num (fl (g + a))"
    by (simp only: fadd_def plus_number.simps rnd_Num)
  have "rnd (Num 1) = Num 1"
    using rnd_Num [of 1] by (simp add: fl_one)
  then have one: "fdiv (Num T) (Num T) = Num 1"
    using assms(2) by (simp add: fdiv_def)
  have "\<bar>fl (g + a)\<bar> \<le> 2 ^ 1023"
    using fl_add_sub(1) [OF assms(1)] by simp
  then have "rnd (Num (fl (g + a))) = Num (fl (g + a))"
    by (simp only: rnd_Num fl_idem)
  then show ?thesis
    unfolding p one by (simp add: fmul_def)
qed

text \<open>
  \<^bold>\<open>C5\<close>, as stated, says that in gauge-constant mode, with the ambient temperature
  equal to the reference temperature, the result is exactly the reference gauge
  pressure. The two roundings do not cancel: a reference of 17.5 PSI at 20 degrees under
  an ambient pressure of 14.7 PSI gives \<open>17.5 + 2 ^ - 48\<close>, which JavaScript prints
  as 17.500000000000004.
\<close>

theorem compensate_same_temperature_rounds:
  "compensatePressurePsi (Num 17.5) (Num 20) (Num 20) (literal 14.7) None
     = Num (17.5 + 1 / 2 ^ 48) \<and>
   compensatePressurePsi (Num 17.5) (Num 20) (Num 20) (literal 14.7) None \<noteq> Num 17.5"
  by (simp add: compensatePressurePsi_def C_to_K_def double_eval)

text \<open>
  \<^bold>\<open>C5\<close>, amended. In gauge-constant mode (\<open>keepAbsoluteConstant\<close> false or absent),
  for a reference temperature that is a double other than \<open>-273.15\<close>, of magnitude at
  most \<open>2 ^ 1022\<close>, an ambient temperature equal to it, and a reference gauge pressure
  \<open>g\<close> and an ambient pressure \<open>a\<close> with \<open>\<bar>g\<bar> + \<bar>a\<bar> \<le> 2 ^ 1022\<close>,
  \<open>compensatePressurePsi\<close> returns a finite number that differs from \<open>g\<close> by at most
  \<open>(\<bar>g\<bar> + \<bar>a\<bar>) / 2 ^ 51 + 2 ^ - 1073\<close>.
\<close>

theorem compensate_same_temperature:
  assumes "fl t = t" and "Num t \<noteq> literal (- 273.15)" and "\<bar>t\<bar> \<le> 2 ^ 1022"
    and "k \<in> {None, Some False}"
    and "\<bar>g\<bar> + \<bar>a\<bar> \<le> 2 ^ 1022"
  shows "\<exists>r. compensatePressurePsi (Num g) (Num t) (Num t) (Num a) k = Num r \<and>
             \<bar>r - g\<bar> \<le> (\<bar>g\<bar> + \<bar>a\<bar>) / 2 ^ 51 + 1 / 2 ^ 1073"
proof -
  have "literal (- 273.15) = Num (- (2402652809016115 / 2 ^ 43))"
    by (simp add: double_eval)
  with assms(2) have "t \<noteq> - (2402652809016115 / 2 ^ 43)" by simp
  from C_to_K_nonzero [OF assms(1) this assms(3)]
  obtain T where T: "C_to_K (Num t) = Num T" "T \<noteq> 0" by blast
  have mode: "or_default k False = False" using assms(4) by auto
  have "compensatePressurePsi (Num g) (Num t) (Num t) (Num a) k
      = fsub (fmul (fadd (Num g) (Num a)) (fdiv (Num T) (Num T))) (Num a)"
    by (simp only: compensatePressurePsi_def T mode Let_def if_False)
  also have "\<dots> = Num (fl (fl (g + a) - a))"
    by (simp only: compensate_times_one [OF assms(5) T(2)] compensate_add_sub [OF assms(5)])
  finally show ?thesis
    using fl_add_sub(3) [OF assms(5)] by blast
qed

text \<open>
  The theorem at 60 PSI, 20 degrees and an ambient pressure of 14 PSI.
\<close>

theorem compensate_same_temperature_witness:
  "fl 20 = 20 \<and> Num 20 \<noteq> literal (- 273.15) \<and> \<bar>20 :: real\<bar> \<le> 2 ^ 1022 \<and>
   Some False \<in> {None, Some False} \<and> \<bar>60 :: real\<bar> + \<bar>14\<bar> \<le> 2 ^ 1022 \<and>
   (\<exists>r. compensatePressurePsi (Num 60) (Num 20) (Num 20) (Num 14) (Some False) = Num r \<and>
        \<bar>r - 60\<bar> \<le> (\<bar>60\<bar> + \<bar>14\<bar>) / 2 ^ 51 + 1 / 2 ^ 1073)"
proof -
  have h1: "fl 20 = 20" using fl_of_int [of 20] by simp
  have h2: "Num 20 \<noteq> literal (- 273.15)" by (simp add: double_eval)
  have h3: "\<bar>20 :: real\<bar> \<le> 2 ^ 1022" by simp
  have h4: "Some False \<in> {None, Some False}" by simp
  have h5: "\<bar>60 :: real\<bar> + \<bar>14\<bar> \<le> 2 ^ 1022" by simp
  from compensate_same_temperature [OF h1 h2 h3 h4 h5] h1 h2 h3 h4 h5
  show ?thesis by blast
qed

text \<open>
At \<open>-273.15\<close> the ratio of the temperatures is \<open>0 / 0\<close>: the result is \<open>NaN\<close>.
\<close>

lemma compensate_absolute_zero:
  "compensatePressurePsi (Num 60) (literal (- 273.15)) (literal (- 273.15)) (Num 14) None = NaN"
  by (simp add: compensatePressurePsi_def C_to_K_def double_eval minus_number_def)

text \<open>
  \<^bold>\<open>C6\<close>, as stated, says that in absolute-constant mode the result is exactly the
  reference gauge pressure for every input. The sum and the difference are rounded:
  17.5 PSI under an ambient pressure of 14.7 PSI gives \<open>17.5 + 2 ^ - 48\<close> here too.
\<close>

theorem compensate_absolute_constant_rounds:
  "compensatePressurePsi (Num 17.5) (Num 20) (Num 5) (literal 14.7) (Some True)
     = Num (17.5 + 1 / 2 ^ 48) \<and>
   compensatePressurePsi (Num 17.5) (Num 20) (Num 5) (literal 14.7) (Some True) \<noteq> Num 17.5"
  by (simp add: compensatePressurePsi_def C_to_K_def double_eval)

text \<open>
  \<^bold>\<open>C6\<close>, amended. In absolute-constant mode (\<open>keepAbsoluteConstant\<close> true), whatever
  the two temperatures are, for a reference gauge pressure \<open>g\<close> and an ambient
  pressure \<open>a\<close> with \<open>\<bar>g\<bar> + \<bar>a\<bar> \<le> 2 ^ 1022\<close>, \<open>compensatePressurePsi\<close> returns a
  finite number that differs from \<open>g\<close> by at most
  \<open>(\<bar>g\<bar> + \<bar>a\<bar>) / 2 ^ 51 + 2 ^ - 1073\<close>.
\<close>

theorem compensate_absolute_constant:
  assumes "\<bar>g\<bar> + \<bar>a\<bar> \<le> 2 ^ 1022"
  shows "\<exists>r. compensatePressurePsi (Num g) refTemp ambientTemp (Num a) (Some True) = Num r \<and>
             \<bar>r - g\<bar> \<le> (\<bar>g\<bar> + \<bar>a\<bar>) / 2 ^ 51 + 1 / 2 ^ 1073"
proof -
  have "compensatePressurePsi (Num g) refTemp ambientTemp (Num a) (Some True)
      = fsub (fadd (Num g) (Num a)) (Num a)"
    by (simp add: compensatePressurePsi_def)
  also have "\<dots> = Num (fl (fl (g + a) - a))"
    by (rule compensate_add_sub [OF assms])
  finally show ?thesis
    using fl_add_sub(3) [OF assms] by blast
qed

text \<open>
  The theorem at 60 PSI and an ambient pressure of 14 PSI, with an ambient temperature
  of \<open>NaN\<close>.
\<close>

theorem compensate_absolute_constant_witness:
  "\<bar>60 :: real\<bar> + \<bar>14\<bar> \<le> 2 ^ 1022 \<and>
   (\<exists>r. compensatePressurePsi (Num 60) (Num 20) NaN (Num 14) (Some True) = Num r \<and>
        \<bar>r - 60\<bar> \<le> (\<bar>60\<bar> + \<bar>14\<bar>) / 2 ^ 51 + 1 / 2 ^ 1073)"
proof -
  have h: "\<bar>60 :: real\<bar> + \<bar>14\<bar> \<le> 2 ^ 1022" by simp
  from compensate_absolute_constant [OF h, of "Num 20" NaN] h
  show ?thesis by blast
qed

text \<open>
  The bound on the two pressures keeps the sum from overflowing: at \<open>2 ^ 1023\<close> for
  both, the sum is \<open>Infinity\<close>, and so is the result.
\<close>

lemma compensate_overflow:
  "compensatePressurePsi (Num (2 ^ 1023)) (Num 20) (Num 5) (Num (2 ^ 1023)) (Some True) = Infinity"
proof -
  have "fl (of_int 1 * 2 powi 1024) = of_int 1 * 2 powi 1024"
    by (rule fl_exact) simp_all
  then have "fl (2 ^ 1024) = 2 ^ 1024" by simp
  then have "fadd (Num (2 ^ 1023)) (Num (2 ^ 1023)) = Infinity"
    by (simp add: fadd_def overflow_def)
  then show ?thesis
    by (simp add: compensatePressurePsi_def fsub_def minus_number_def)
qed

section \<open>Arithmetic of angles\<close>

text \<open>
  On finite numbers the remainder by 360 is finite and below 360 in magnitude, so
  \<open>clampDeg\<close> is a number from 0 up to 360, and \<open>angleDiff\<close> and \<open>toRad\<close> are
  finite: none of their roundings overflows.
\<close>

lemma mod_360_Num:
  "\<exists>r. Num a mod Num 360 = Num r \<and> \<bar>r\<bar> < 360 \<and> (0 \<le> a \<longrightarrow> 0 \<le> r)"
proof (cases "0 \<le> a")
  case True
  then have q: "trunc_quot a 360 = \<lfloor>a / 360\<rfloor>" by (simp add: trunc_quot_def)
  have "of_int \<lfloor>a / 360\<rfloor> \<le> a / 360" "a / 360 < of_int \<lfloor>a / 360\<rfloor> + 1" by linarith+
  then have "0 \<le> a - 360 * of_int \<lfloor>a / 360\<rfloor>" "a - 360 * of_int \<lfloor>a / 360\<rfloor> < 360"
    by linarith+
  then show ?thesis using True by (simp add: q)
next
  case False
  then have q: "trunc_quot a 360 = \<lceil>a / 360\<rceil>" by (simp add: trunc_quot_def divide_less_0_iff)
  have "a / 360 \<le> of_int \<lceil>a / 360\<rceil>" "of_int \<lceil>a / 360\<rceil> < a / 360 + 1" by linarith+
  then have "a - 360 * of_int \<lceil>a / 360\<rceil> \<le> 0" "- 360 < a - 360 * of_int \<lceil>a / 360\<rceil>"
    by linarith+
  then show ?thesis using False by (simp add: q)
qed

lemma clampDeg_Num: "\<exists>c. clampDeg (Num x) = Num c \<and> 0 \<le> c \<and> c < 360"
proof -
  obtain r where r: "Num x mod Num 360 = Num r" "\<bar>r\<bar> < 360"
    using mod_360_Num [of x] by blast
  have "\<bar>r + 360\<bar> \<le> 2 powi 10" using r(2) by simp
  then have s: "rnd (Num (r + 360)) = Num (fl (r + 360))"
    using rnd_Num_bound [of "r + 360" 10] by simp
  have nonneg: "0 \<le> fl (r + 360)"
    by (rule fl_nonneg) (use r(2) in simp)
  obtain c where c: "Num (fl (r + 360)) mod Num 360 = Num c" "\<bar>c\<bar> < 360" "0 \<le> c"
    using mod_360_Num [of "fl (r + 360)"] nonneg by blast
  have "clampDeg (Num x) = Num c"
    by (simp only: clampDeg_def r(1) fadd_def plus_number.simps s c(1))
  with c show ?thesis by simp
qed

lemma angleDiff_Num: "\<exists>v. angleDiff (Num a) (Num b) = Num v \<and> \<bar>v\<bar> \<le> 1024"
proof -
  obtain ca where ca: "clampDeg (Num a) = Num ca" "0 \<le> ca" "ca < 360"
    using clampDeg_Num by blast
  obtain cb where cb: "clampDeg (Num b) = Num cb" "0 \<le> cb" "cb < 360"
    using clampDeg_Num by blast
  have "\<bar>ca - cb\<bar> \<le> 2 powi 9" using ca cb by simp
  then have d: "rnd (Num (ca - cb)) = Num (fl (ca - cb))" "\<bar>fl (ca - cb)\<bar> \<le> 2 powi 9"
    using rnd_Num_bound [of "ca - cb" 9] by simp_all
  have "\<bar>fl (ca - cb) + 540\<bar> \<le> 2 powi 11" using d(2) by simp
  then have s: "rnd (Num (fl (ca - cb) + 540)) = Num (fl (fl (ca - cb) + 540))"
    using rnd_Num_bound [of "fl (ca - cb) + 540" 11] by simp
  obtain r where r: "Num (fl (fl (ca - cb) + 540)) mod Num 360 = Num r" "\<bar>r\<bar> < 360"
    using mod_360_Num by blast
  have "\<bar>r - 180\<bar> \<le> 2 powi 10" using r(2) by simp
  then have w: "rnd (Num (r - 180)) = Num (fl (r - 180))" "\<bar>fl (r - 180)\<bar> \<le> 2 powi 10"
    using rnd_Num_bound [of "r - 180" 10] by simp_all
  have "angleDiff (Num a) (Num b) = Num (fl (r - 180))"
    by (simp only: angleDiff_def ca(1) cb(1) fsub_def fadd_def minus_Num plus_number.simps
        d(1) s r(1) w(1) Let_def)
  then show ?thesis using w(2) by simp
qed

lemma toRad_Num:
  assumes "\<bar>v\<bar> \<le> 1024"
  shows "\<exists>\<rho>. toRad (Num v) = Num \<rho>"
proof -
  define c :: real where "c = 884279719003555 / 281474976710656"
  have PI: "Math_PI = Num c" by (simp add: Math_PI_def c_def)
  have "0 \<le> c" "c \<le> 4" by (simp_all add: c_def)
  then have "\<bar>v\<bar> * c \<le> 1024 * 4"
    by (intro mult_mono) (use assms in simp_all)
  moreover have "\<bar>v * c\<bar> = \<bar>v\<bar> * c"
    using \<open>0 \<le> c\<close> by (simp add: abs_mult)
  ultimately have "\<bar>v * c\<bar> \<le> 2 powi 12" by simp
  then have m: "rnd (Num (v * c)) = Num (fl (v * c))" "\<bar>fl (v * c)\<bar> \<le> 2 powi 12"
    using rnd_Num_bound [of "v * c" 12] by simp_all
  have "\<bar>fl (v * c) / 180\<bar> \<le> 2 powi 12" using m(2) by simp
  then have d: "rnd (Num (fl (v * c) / 180)) = Num (fl (fl (v * c) / 180))"
    using rnd_Num_bound [of "fl (v * c) / 180" 12] by simp
  have "toRad (Num v) = Num (fl (fl (v * c) / 180))"
    by (simp add: toRad_def PI fmul_def fdiv_def m(1) d del: rnd.simps)
  then show ?thesis by blast
qed

section \<open>Termination of the search\<close>

text \<open>
One turn of the loop, and its exit.
\<close>

lemma lattice_done: "\<not> h < Num 360 \<Longrightarrow> lattice wd ws r p al h c = Some c"
  by (subst lattice.simps) simp

lemma lattice_step:
  "h < Num 360 \<Longrightarrow>
   lattice wd ws r p al h c =
   lattice wd ws r p al (fadd h r) (if inIntervals h al then c @ [candidate wd ws p h] else c)"
  by (subst lattice.simps) simp











section \<open>Separation of the recommended headings\<close>

text \<open>
The sort permutes its input.
\<close>

lemma set_insort_by: "set (insort_by cmp x ys) = insert x (set ys)"
  by (induction ys) auto

lemma set_Array_sort: "set (Array_sort cmp xs) = set xs"
  unfolding Array_sort_def by (induction xs) (simp_all add: set_insort_by)

text \<open>
  The headings of the lattice are finite. The loop variable leaves the finite numbers
  only by an overflow or by a step that is not finite; from \<open>-Infinity\<close> on it stays
  there, under a step that is finite or \<open>-Infinity\<close>, and the loop does not return.
\<close>

lemma fadd_NegInfinity:
  "res \<noteq> NaN \<Longrightarrow> res \<noteq> Infinity \<Longrightarrow> fadd NegInfinity res = NegInfinity"
  by (cases res) (simp_all add: fadd_def)

lemma fadd_to_NegInfinity:
  "fadd (Num x) res = NegInfinity \<Longrightarrow> res \<noteq> NaN \<and> res \<noteq> Infinity"
  by (cases res) (simp_all add: fadd_def)

lemma lattice_headings_finite_aux:
  assumes "lattice wd ws res p al h c = Some out"
  shows "\<not> (h = NegInfinity \<and> res \<noteq> NaN \<and> res \<noteq> Infinity) \<and>
         (h \<noteq> NegInfinity \<and> list_all (\<lambda>q. isFinite (headingDeg q)) c
            \<longrightarrow> list_all (\<lambda>q. isFinite (headingDeg q)) out)"
  using assms
proof (rule lattice.raw_induct [rotated 1,
      where P = "\<lambda>wd ws res p al h c out.
        \<not> (h = NegInfinity \<and> res \<noteq> NaN \<and> res \<noteq> Infinity) \<and>
        (h \<noteq> NegInfinity \<and> list_all (\<lambda>q. isFinite (headingDeg q)) c
           \<longrightarrow> list_all (\<lambda>q. isFinite (headingDeg q)) out)"])
  fix f :: "number \<Rightarrow> number \<Rightarrow> number \<Rightarrow> number \<Rightarrow> (number \<times> number) list option \<Rightarrow>
      number \<Rightarrow> Recommendation list \<Rightarrow> Recommendation list option"
    and wd ws res p al h c out
  assume IH: "\<And>wd ws res p al h c out.
      f wd ws res p al h c = Some out \<Longrightarrow>
      \<not> (h = NegInfinity \<and> res \<noteq> NaN \<and> res \<noteq> Infinity) \<and>
      (h \<noteq> NegInfinity \<and> list_all (\<lambda>q. isFinite (headingDeg q)) c
         \<longrightarrow> list_all (\<lambda>q. isFinite (headingDeg q)) out)"
  assume body: "(if h < Num 360
      then if \<not> inIntervals h al then f wd ws res p al (fadd h res) c
           else f wd ws res p al (fadd h res) (c @ [candidate wd ws p h])
      else Some c) = Some out"
  let ?c = "if inIntervals h al then c @ [candidate wd ws p h] else c"
  have next_call: "f wd ws res p al (fadd h res) ?c = Some out" if "h < Num 360"
    using body that by (simp split: if_splits)
  show "\<not> (h = NegInfinity \<and> res \<noteq> NaN \<and> res \<noteq> Infinity) \<and>
        (h \<noteq> NegInfinity \<and> list_all (\<lambda>q. isFinite (headingDeg q)) c
           \<longrightarrow> list_all (\<lambda>q. isFinite (headingDeg q)) out)"
  proof (intro conjI notI impI)
    assume a: "h = NegInfinity \<and> res \<noteq> NaN \<and> res \<noteq> Infinity"
    then have "h < Num 360" by simp
    from IH [OF next_call [OF this]] a show False
      by (simp add: fadd_NegInfinity)
  next
    assume a: "h \<noteq> NegInfinity \<and> list_all (\<lambda>q. isFinite (headingDeg q)) c"
    show "list_all (\<lambda>q. isFinite (headingDeg q)) out"
    proof (cases "h < Num 360")
      case False
      with body a show ?thesis by simp
    next
      case True
      with a obtain x where x: "h = Num x" by (cases h) simp_all
      have fin: "list_all (\<lambda>q. isFinite (headingDeg q)) ?c"
        using a x by (simp add: candidate_def Let_def)
      note call = IH [OF next_call [OF True]]
      show ?thesis
      proof (cases "fadd h res = NegInfinity")
        case True
        then have "res \<noteq> NaN \<and> res \<noteq> Infinity"
          unfolding x by (rule fadd_to_NegInfinity)
        with call True show ?thesis by simp
      next
        case False
        with call fin show ?thesis by simp
      qed
    qed
  qed
qed

lemma lattice_headings_finite:
  assumes "lattice wd ws res p al (Num 0) [] = Some out"
  shows "list_all (\<lambda>q. isFinite (headingDeg q)) out"
  using lattice_headings_finite_aux [OF assms] by simp

text \<open>
  The picks: each comes from the candidates or was picked before, and each new pick is
  at least the minimum separation away from every earlier one by the test of the loop,
  in which the earlier pick is the first argument of \<open>angleDiff\<close>.
\<close>

lemma set_pick: "set (pick k m cs picked) \<subseteq> set picked \<union> set cs"
proof (induction cs arbitrary: picked)
  case Nil
  then show ?case by simp
next
  case (Cons c cs)
  have "set (pick k m cs (picked @ [c])) \<subseteq> set (picked @ [c]) \<union> set cs"
    by (rule Cons.IH)
  moreover have "set (pick k m cs picked) \<subseteq> set picked \<union> set cs"
    by (rule Cons.IH)
  ultimately show ?case by (auto simp add: Let_def)
qed

lemma pick_separated:
  assumes "list_all (\<lambda>q. isFinite (headingDeg q)) cs"
    and "list_all (\<lambda>q. isFinite (headingDeg q)) picked"
    and "sorted_wrt (\<lambda>p q. Num m \<le> \<bar>angleDiff (headingDeg p) (headingDeg q)\<bar>) picked"
  shows "sorted_wrt (\<lambda>p q. Num m \<le> \<bar>angleDiff (headingDeg p) (headingDeg q)\<bar>)
           (pick k (Num m) cs picked)"
  using assms
proof (induction cs arbitrary: picked)
  case Nil
  then show ?case by simp
next
  case (Cons c cs)
  show ?case
  proof (cases "k \<le> Num (real (length picked))")
    case True
    with Cons.prems show ?thesis by simp
  next
    case full: False
    show ?thesis
    proof (cases "list_ex (\<lambda>p. \<bar>angleDiff (headingDeg p) (headingDeg c)\<bar> < Num m) picked")
      case True
      with full have "pick k (Num m) (c # cs) picked = pick k (Num m) cs picked"
        by simp
      with Cons show ?thesis by simp
    next
      case False
      with full have eq: "pick k (Num m) (c # cs) picked = pick k (Num m) cs (picked @ [c])"
        by simp
      have far: "Num m \<le> \<bar>angleDiff (headingDeg p) (headingDeg c)\<bar>" if "p \<in> set picked" for p
      proof -
        from that Cons.prems(2) obtain a where a: "headingDeg p = Num a"
          by (cases "headingDeg p") (auto simp add: list_all_iff)
        from Cons.prems(1) obtain b where b: "headingDeg c = Num b"
          by (cases "headingDeg c") auto
        obtain v where v: "angleDiff (Num a) (Num b) = Num v"
          using angleDiff_Num by blast
        from False that have "\<not> \<bar>angleDiff (headingDeg p) (headingDeg c)\<bar> < Num m"
          by (auto simp add: list_ex_iff)
        then show ?thesis by (simp add: a b v)
      qed
      have "sorted_wrt (\<lambda>p q. Num m \<le> \<bar>angleDiff (headingDeg p) (headingDeg q)\<bar>) (picked @ [c])"
        using Cons.prems(3) far by (simp add: sorted_wrt_append)
      moreover have "list_all (\<lambda>q. isFinite (headingDeg q)) (picked @ [c])"
        using Cons.prems by simp
      moreover have "list_all (\<lambda>q. isFinite (headingDeg q)) cs"
        using Cons.prems by simp
      ultimately show ?thesis
        unfolding eq by (intro Cons.IH)
    qed
  qed
qed

text \<open>
  With no wind the three components of every heading are 0, whatever \<open>Math.cos\<close> and
  \<open>Math.sin\<close> return at the finite angle; the search then keeps the order of the
  lattice. The equations below it evaluate a search on concrete inputs.
\<close>

lemma scoreHeading_calm:
  assumes "\<bar>wd\<bar> \<le> 2 ^ 1022"
  shows "scoreHeading (Num wd) (Num 0) (Num h) (Some (Num p)) =
           \<lparr>score = Num 0, tailComponent = Num 0, crossComponent = Num 0,
            windTowardDeg = clampDeg (fadd (Num wd) (Num 180))\<rparr>"
proof -
  have "\<bar>wd + 180\<bar> \<le> 2 ^ 1023" using assms by simp
  then have "fadd (Num wd) (Num 180) = Num (fl (wd + 180))"
    by (simp only: fadd_def plus_number.simps rnd_Num)
  then obtain t where t: "clampDeg (fadd (Num wd) (Num 180)) = Num t"
    using clampDeg_Num by metis
  obtain v where v: "angleDiff (Num h) (Num t) = Num v" "\<bar>v\<bar> \<le> 1024"
    using angleDiff_Num by blast
  obtain \<rho> where r: "toRad (Num v) = Num \<rho>"
    using toRad_Num [OF v(2)] by blast
  show ?thesis
    by (simp add: scoreHeading_def t v(1) r fmul_def fsub_def rnd_zero minus_Num Let_def
        del: rnd.simps)
qed

lemmas search_eval =
  recommendHeadings_def no_options_def lattice_step lattice_done candidate_def
  clampDeg_def angleDiff_def bearingToCompass_def COMPASS_16_def
  Array_sort_def trunc_quot_def ceiling_def double_eval

text \<open>
  \<^bold>\<open>C4\<close>, as stated, says that any two candidates returned are at least
  \<open>minSeparationDeg\<close> apart by \<open>angleDiff\<close>. The loop tests \<open>angleDiff\<close> with the
  earlier pick first, and the rounded \<open>angleDiff\<close> is not symmetric. With no wind, a
  step of 130.3 degrees and a minimum separation of 130.3 degrees, the headings 0 and
  130.3 are both returned: \<open>angleDiff(0, 130.3)\<close> is \<open>-130.3\<close>, but
  \<open>angleDiff(130.3, 0)\<close> is 130.29999999999995, less than the minimum.
\<close>

theorem recommendHeadings_separation_one_sided:
  "map_option (map headingDeg)
     (recommendHeadings (Num 0) (Num 0)
        (Some (no_options\<lparr>resolutionDeg := Some (literal 130.3),
                            minSeparationDeg := Some (literal 130.3)\<rparr>)))
     = Some [Num 0, literal 130.3] \<and>
   \<bar>angleDiff (literal 130.3) (Num 0)\<bar> < literal 130.3"
  by (simp add: search_eval scoreHeading_calm)

text \<open>
  \<^bold>\<open>C4\<close>, amended. Whatever the wind direction, the wind speed and the other
  options, for a finite \<open>minSeparationDeg\<close> (15 when absent), any two candidates of
  the list \<open>recommendHeadings\<close> returns are at least \<open>minSeparationDeg\<close> apart by
  the magnitude of \<open>angleDiff\<close> taken with the heading of the earlier one, the one
  with the higher score, as its first argument. The proof uses of the sort only that it
  permutes the candidates.
\<close>

theorem recommendHeadings_separated:
  assumes "or_default (minSeparationDeg (or_default opts no_options)) (Num 15) = Num m"
    and "recommendHeadings wd ws opts = Some picked"
    and "i < j" and "j < length picked"
  shows "Num m \<le> \<bar>angleDiff (headingDeg (picked ! i)) (headingDeg (picked ! j))\<bar>"
proof -
  let ?res = "or_default (resolutionDeg (or_default opts no_options)) (Num 5)"
  let ?pen = "or_default (crosswindPenalty (or_default opts no_options)) (literal 0.4)"
  let ?al = "allowedHeadings (or_default opts no_options)"
  let ?k = "or_default (topK (or_default opts no_options)) (Num 3)"
  let ?far = "\<lambda>p q. Num m \<le> \<bar>angleDiff (headingDeg p) (headingDeg q)\<bar>"
  from assms(1,2) obtain cands where
    cands: "lattice wd ws ?res ?pen ?al (Num 0) [] = Some cands"
    and picked: "picked = pick ?k (Num m) (Array_sort (\<lambda>a b. fsub (score b) (score a)) cands) []"
    by (auto simp add: recommendHeadings_def Let_def split: bind_splits)
  have "list_all (\<lambda>q. isFinite (headingDeg q)) cands"
    by (rule lattice_headings_finite [OF cands])
  then have sorted_fin:
    "list_all (\<lambda>q. isFinite (headingDeg q)) (Array_sort (\<lambda>a b. fsub (score b) (score a)) cands)"
    by (simp add: list_all_iff set_Array_sort)
  have "sorted_wrt ?far picked"
    unfolding picked by (rule pick_separated [OF sorted_fin]) simp_all
  then show ?thesis
    using assms(3,4) by (simp add: sorted_wrt_iff_nth_less)
qed

text \<open>
  A search with no wind in steps of 90 degrees, and the theorem on its first and third
  picks, 180 degrees apart.
\<close>

lemma recommend_calm:
  "recommendHeadings (Num 270) (Num 0) (Some (no_options\<lparr>resolutionDeg := Some (Num 90)\<rparr>)) =
   Some
     [\<lparr>score = Num 0, tailComponent = Num 0, crossComponent = Num 0,
       windTowardDeg = Num 90, headingDeg = Num 0, headingLabel = Some ''N''\<rparr>,
      \<lparr>score = Num 0, tailComponent = Num 0, crossComponent = Num 0,
       windTowardDeg = Num 90, headingDeg = Num 90, headingLabel = Some ''E''\<rparr>,
      \<lparr>score = Num 0, tailComponent = Num 0, crossComponent = Num 0,
       windTowardDeg = Num 90, headingDeg = Num 180, headingLabel = Some ''S''\<rparr>]"
  by (simp add: search_eval scoreHeading_calm)

theorem recommendHeadings_separated_witness:
  "or_default (minSeparationDeg (or_default (Some (no_options\<lparr>resolutionDeg := Some (Num 90)\<rparr>))
     no_options)) (Num 15) = Num 15 \<and>
   map_option (map headingDeg)
     (recommendHeadings (Num 270) (Num 0) (Some (no_options\<lparr>resolutionDeg := Some (Num 90)\<rparr>)))
     = Some [Num 0, Num 90, Num 180] \<and>
   (0 :: nat) < 2 \<and> 2 < length [Num 0, Num 90, Num 180 :: number] \<and>
   Num 15 \<le> \<bar>angleDiff (Num 0) (Num 180)\<bar>"
proof -
  let ?opts = "Some (no_options\<lparr>resolutionDeg := Some (Num 90)\<rparr>)"
  have m: "or_default (minSeparationDeg (or_default ?opts no_options)) (Num 15) = Num 15"
    by (simp add: no_options_def)
  show ?thesis
    using m recommendHeadings_separated [OF m recommend_calm, of 0 2]
    by (simp add: recommend_calm)
qed

section \<open>Wind data that is not finite\<close>






section \<open>Compass labels\<close>

text \<open>
  \<^bold>\<open>C9.\<close> For every finite degree value, negative ones included, each of the two
  label functions is to read its table within bounds and return the label at index
  \<open>round(deg / 22.5) mod 16\<close>. \<open>toCompass\<close> reduces the degrees by \<open>%\<close> alone, which
  keeps the sign: at \<open>-90\<close> it reads index \<open>-4\<close>, outside the table, and returns
  \<open>undefined\<close>, where the index of the claim is 12 and the label ``W'', as
  \<open>bearingToCompass\<close>, which normalises the degrees with \<open>clampDeg\<close> first, returns.
\<close>

theorem toCompass_negative_undefined:
  "toCompass (Num (- 90)) = None \<and>
   bearingToCompass (Num (- 90)) = Some ''W'' \<and>
   COMPASS_16 ! nat (round (- 90 / 22.5 :: real) mod 16) = ''W''"
  by (simp add: toCompass_def bearingToCompass_def clampDeg_def trunc_quot_def COMPASS_16_def
      ceiling_def double_eval)

section \<open>The scenarios of the specification\<close>

text \<open>
  A load of 86.4 pounds on a 28 mm tire, all three offsets zero: \<open>20 * (86.4 / 28)\<close>,
  about 61.71 PSI.
\<close>

lemma scenario_baseline:
  "computeWheelPsi \<lparr>loadLbs = Num 86.4, tireWidthMm = Num 28,
      surface = Worn_Pavement_Some_Cracks, speed = Moderate_Group_Ride,
      tireType = High_performance_tubeless_latex, wheelDiameter = D_700C_29\<rparr> = Num (432 / 7)"
  by (simp add: computeWheelPsi_Num)

text \<open>
  A reference of 60 PSI at 20 degrees, read at 5 degrees under 14 PSI of ambient
  pressure, in gauge-constant mode: the double 56.21354255500597.
\<close>

lemma scenario_compensation:
  "compensatePressurePsi (Num 60) (Num 20) (Num 5) (Num 14) None
     = Num (988919098843361 / 2 ^ 44)"
  by (simp add: compensatePressurePsi_def C_to_K_def double_eval)

end
